theory Spec2Isabelle
  imports Main
begin

section \<open>Plan nodes and expressions\<close>

text \<open>
  The analyzer rules of \<^verbatim>\<open>sql/plan/showvariables.go\<close> (the file also holds the
  analyzer's subquery rules) work on plan nodes (\<^verbatim>\<open>sql.Node\<close>) and expressions
  (\<^verbatim>\<open>sql.Expression\<close>). The variants below are the ones the rules name in type
  switches and type assertions, with the fields the rules read or write, plus the
  leaf and expression-bearing variants needed to build plans around them.
\<close>

datatype JoinType = JoinTypeInner | JoinTypeLeft | JoinTypeRight

text \<open>
  \<^verbatim>\<open>SubqueryAlias name Columns OuterScopeVisibility Child\<close>;
  \<^verbatim>\<open>JoinNode joinType scopeLen cond left right\<close> stands for the implementations of the
  interface \<^verbatim>\<open>plan.JoinNode\<close>; \<^verbatim>\<open>IndexedJoin\<close> is the separate struct the rules test
  for on its own. \<^verbatim>\<open>FunctionCall name nonDeterministic args\<close> is an expression with
  children; its flag is what \<^verbatim>\<open>IsNonDeterministic()\<close> answers.
  \<^verbatim>\<open>Subquery Query canCacheResults\<close> is \<^verbatim>\<open>plan.Subquery\<close>: the body and the
  mark that \<^verbatim>\<open>WithCachedResults\<close> sets.
\<close>

datatype node =
    ResolvedTable string
  | UnresolvedTable string
  | ShowVariables "expr option"
  | Project "expr list" node
  | Filter expr node
  | SubqueryAlias (Name: string) (Columns: "string list") (OuterScopeVisibility: bool) (Child: node)
  | TableAlias string node
  | QueryProcess node
  | StartTransaction node
  | TransactionCommittingNode node
  | TriggerBeginEndBlock "node list"
  | JoinNode JoinType nat expr node node
  | IndexedJoin JoinType nat expr node node
  | CachedResults node
  | StripRowNode node nat
and expr =
    Literal string
  | GetField nat string
  | UnresolvedColumn string
  | FunctionCall string bool "expr list"
  | Subquery (Query: node) (canCacheResults: bool)

datatype error =
    ErrInvalidChildrenNumber
  | ErrInvalidExpressionNumber
  | ErrValidationResolved
  | ErrTableColumnNotFound
  | ErrColumnNotFound
  | ErrColumnCountMismatch
  | ErrOther string

text \<open>
  \<^verbatim>\<open>transform.TreeIdentity\<close> is a boolean in the source (the rules write
  \<^verbatim>\<open>sameA && sameD\<close> and \<^verbatim>\<open>if same\<close>): \<^verbatim>\<open>SameTree\<close> is true.
\<close>

type_synonym TreeIdentity = bool

abbreviation (input) SameTree :: TreeIdentity where "SameTree \<equiv> True"
abbreviation (input) NewTree :: TreeIdentity where "NewTree \<equiv> False"

subsection \<open>Node methods\<close>

text \<open>
  Modelled from the spec: the methods \<^verbatim>\<open>Children\<close>, \<^verbatim>\<open>WithChildren\<close>,
  \<^verbatim>\<open>Expressions\<close>, \<^verbatim>\<open>WithExpressions\<close> and \<^verbatim>\<open>Resolved\<close> of the node and
  expression types, which are declared outside the source files (section 3:
  each node reports whether it is fully resolved, exposes its children, can be rebuilt
  with new children, optionally exposes its scalar sub-expressions and can be rebuilt
  with new ones). \<^verbatim>\<open>ShowVariables\<close> is in the source: no children, \<^verbatim>\<open>WithChildren\<close>
  fails unless given none, \<^verbatim>\<open>Resolved\<close> is always true.
\<close>

fun Children :: "node \<Rightarrow> node list" where
  "Children (ResolvedTable _) = []"
| "Children (UnresolvedTable _) = []"
| "Children (ShowVariables _) = []"
| "Children (Project _ c) = [c]"
| "Children (Filter _ c) = [c]"
| "Children (SubqueryAlias _ _ _ c) = [c]"
| "Children (TableAlias _ c) = [c]"
| "Children (QueryProcess c) = [c]"
| "Children (StartTransaction c) = [c]"
| "Children (TransactionCommittingNode c) = [c]"
| "Children (TriggerBeginEndBlock cs) = cs"
| "Children (JoinNode _ _ _ l r) = [l, r]"
| "Children (IndexedJoin _ _ _ l r) = [l, r]"
| "Children (CachedResults c) = [c]"
| "Children (StripRowNode c _) = [c]"

fun WithChildren :: "node \<Rightarrow> node list \<Rightarrow> error + node" where
  "WithChildren (ResolvedTable t) cs = (if cs = [] then Inr (ResolvedTable t) else Inl ErrInvalidChildrenNumber)"
| "WithChildren (UnresolvedTable t) cs = (if cs = [] then Inr (UnresolvedTable t) else Inl ErrInvalidChildrenNumber)"
| "WithChildren (ShowVariables f) cs = (if length cs \<noteq> 0 then Inl ErrInvalidChildrenNumber else Inr (ShowVariables f))"
| "WithChildren (Project es _) [c] = Inr (Project es c)"
| "WithChildren (Filter e _) [c] = Inr (Filter e c)"
| "WithChildren (SubqueryAlias nm cols vis _) [c] = Inr (SubqueryAlias nm cols vis c)"
| "WithChildren (TableAlias nm _) [c] = Inr (TableAlias nm c)"
| "WithChildren (QueryProcess _) [c] = Inr (QueryProcess c)"
| "WithChildren (StartTransaction _) [c] = Inr (StartTransaction c)"
| "WithChildren (TransactionCommittingNode _) [c] = Inr (TransactionCommittingNode c)"
| "WithChildren (TriggerBeginEndBlock _) cs = Inr (TriggerBeginEndBlock cs)"
| "WithChildren (JoinNode t k e _ _) [l, r] = Inr (JoinNode t k e l r)"
| "WithChildren (IndexedJoin t k e _ _) [l, r] = Inr (IndexedJoin t k e l r)"
| "WithChildren (CachedResults _) [c] = Inr (CachedResults c)"
| "WithChildren (StripRowNode _ k) [c] = Inr (StripRowNode c k)"
| "WithChildren _ _ = Inl ErrInvalidChildrenNumber"

text \<open>The nodes that implement \<^verbatim>\<open>sql.Expressioner\<close>.\<close>

fun isExpressioner :: "node \<Rightarrow> bool" where
  "isExpressioner (Project _ _) = True"
| "isExpressioner (Filter _ _) = True"
| "isExpressioner (JoinNode _ _ _ _ _) = True"
| "isExpressioner (IndexedJoin _ _ _ _ _) = True"
| "isExpressioner _ = False"

fun Expressions :: "node \<Rightarrow> expr list" where
  "Expressions (Project es _) = es"
| "Expressions (Filter e _) = [e]"
| "Expressions (JoinNode _ _ e _ _) = [e]"
| "Expressions (IndexedJoin _ _ e _ _) = [e]"
| "Expressions _ = []"

fun WithExpressions :: "node \<Rightarrow> expr list \<Rightarrow> error + node" where
  "WithExpressions (Project _ c) es = Inr (Project es c)"
| "WithExpressions (Filter _ c) [e] = Inr (Filter e c)"
| "WithExpressions (JoinNode t k _ l r) [e] = Inr (JoinNode t k e l r)"
| "WithExpressions (IndexedJoin t k _ l r) [e] = Inr (IndexedJoin t k e l r)"
| "WithExpressions _ _ = Inl ErrInvalidExpressionNumber"

fun expr_Children :: "expr \<Rightarrow> expr list" where
  "expr_Children (FunctionCall _ _ args) = args"
| "expr_Children _ = []"

fun expr_WithChildren :: "expr \<Rightarrow> expr list \<Rightarrow> error + expr" where
  "expr_WithChildren (FunctionCall nm nd _) args = Inr (FunctionCall nm nd args)"
| "expr_WithChildren e cs = (if cs = [] then Inr e else Inl ErrInvalidChildrenNumber)"


section \<open>Passthrough nodes\<close>

text \<open>
  \<^verbatim>\<open>StripPassthroughNodes\<close>: the loop replaces \<^verbatim>\<open>n\<close> by its child while \<^verbatim>\<open>n\<close> is a
  \<^verbatim>\<open>QueryProcess\<close>, a \<^verbatim>\<open>StartTransaction\<close> or a \<^verbatim>\<open>TransactionCommittingNode\<close>, and
  returns the first node that is none of them.
\<close>

fun StripPassthroughNodes :: "node \<Rightarrow> node" where
  "StripPassthroughNodes (QueryProcess c) = StripPassthroughNodes c"
| "StripPassthroughNodes (StartTransaction c) = StripPassthroughNodes c"
| "StripPassthroughNodes (TransactionCommittingNode c) = StripPassthroughNodes c"
| "StripPassthroughNodes n = n"


section \<open>Scopes and the analyzer\<close>

text \<open>
  Modelled from the spec: the type \<^verbatim>\<open>Scope\<close> and its methods, declared outside the
  source files (section 3: an ordered sequence of enclosing plan nodes,
  innermost first, and a recursion-depth counter; section 4.2: a subquery expression
  gets the outer scope plus the node that contains it; the depth rule is given for
  subquery-derived tables only, so \<open>newScope\<close> keeps the depth). The rules test
  \<^verbatim>\<open>scope != nil\<close> and call the methods on a scope that may be nil, so a scope
  argument is a \<^typ>\<open>'a option\<close> and the methods answer for \<^term>\<open>None\<close>: a nil
  scope has depth 0, no nodes, and is empty.
\<close>

record Scope =
  nodes :: "node list"
  recursionDepth :: nat

definition newScopeWithDepth :: "nat \<Rightarrow> Scope" where
  "newScopeWithDepth depth = \<lparr>nodes = [], recursionDepth = depth\<rparr>"

definition RecursionDepth :: "Scope option \<Rightarrow> nat" where
  "RecursionDepth s = (case s of None \<Rightarrow> 0 | Some sc \<Rightarrow> recursionDepth sc)"

definition InnerToOuter :: "Scope option \<Rightarrow> node list" where
  "InnerToOuter s = (case s of None \<Rightarrow> [] | Some sc \<Rightarrow> nodes sc)"

definition IsEmpty :: "Scope option \<Rightarrow> bool" where
  "IsEmpty s = (case s of None \<Rightarrow> True | Some sc \<Rightarrow> length (nodes sc) = 0)"

definition newScope :: "Scope option \<Rightarrow> node \<Rightarrow> Scope" where
  "newScope s n = \<lparr>nodes = n # InnerToOuter s, recursionDepth = RecursionDepth s\<rparr>"

text \<open>
  The analyzer \<^verbatim>\<open>a *Analyzer\<close> is outside the source files: its three methods that
  the rules call are taken as parameters, a record of functions. Each returns the
  triple of the source, \<^verbatim>\<open>(sql.Node, transform.TreeIdentity, error)\<close>, where the
  node is read by the caller even when the error is set. The context argument is left
  out, and \<^verbatim>\<open>analyzeWithSelector\<close> is taken at the batch selector
  \<^verbatim>\<open>SelectAllBatches\<close>, the only one it is called with. A rule selector is a
  predicate on rule ids.
\<close>

type_synonym RuleSelector = "nat \<Rightarrow> bool"

type_synonym analysis = "node \<times> TreeIdentity \<times> error option"

record Analyzer =
  analyzeWithSelector :: "node \<Rightarrow> Scope option \<Rightarrow> RuleSelector \<Rightarrow> analysis"
  analyzeStartingAtBatch :: "node \<Rightarrow> Scope option \<Rightarrow> string \<Rightarrow> RuleSelector \<Rightarrow> analysis"
  analyzeThroughBatch :: "node \<Rightarrow> Scope option \<Rightarrow> string \<Rightarrow> RuleSelector \<Rightarrow> analysis"

section \<open>Analysis of one subquery expression\<close>

text \<open>
  Modelled from the spec: the methods \<^verbatim>\<open>WithQuery\<close> and \<^verbatim>\<open>WithCachedResults\<close> of
  \<^verbatim>\<open>plan.Subquery\<close>, outside the source files (section 3: a subquery expression wraps
  an inner plan node plus cached-result metadata; rewriting produces new trees). Each
  returns a changed copy.
\<close>

fun WithQuery :: "expr \<Rightarrow> node \<Rightarrow> expr" where
  "WithQuery (Subquery _ c) q = Subquery q c"
| "WithQuery e _ = e"


text \<open>
  \<^verbatim>\<open>analyzeSubqueryExpression\<close>. A rule returns \<^verbatim>\<open>(result, identity, error)\<close>;
  the model returns \<^term>\<open>Inl err\<close> where the source returns \<^verbatim>\<open>nil\<close> with an error,
  and \<^term>\<open>Inr (result, identity)\<close> otherwise. \<^verbatim>\<open>NewSubqueryExprResolveSelector\<close>
  is outside the source files and is a parameter.
\<close>

definition analyzeSubqueryExpression ::
  "Analyzer \<Rightarrow> (RuleSelector \<Rightarrow> RuleSelector) \<Rightarrow> node \<Rightarrow> expr \<Rightarrow> Scope option \<Rightarrow> RuleSelector \<Rightarrow> bool
    \<Rightarrow> error + expr \<times> TreeIdentity" where
  "analyzeSubqueryExpression a NewSubqueryExprResolveSelector n sq scope sel finalize =
    (let subScope = newScope scope n;
         (analyzed, _, err) =
           (if finalize
            then analyzeWithSelector a (Query sq) (Some subScope) sel
            else analyzeWithSelector a (Query sq) (Some subScope) (NewSubqueryExprResolveSelector sel))
     in case err of
          Some e \<Rightarrow>
            if \<not> finalize \<and> (e = ErrValidationResolved \<or> e = ErrTableColumnNotFound \<or> e = ErrColumnNotFound)
            then Inr (WithQuery sq analyzed, NewTree)
            else Inl e
        | None \<Rightarrow> Inr (WithQuery sq (StripPassthroughNodes analyzed), NewTree))"

section \<open>Analysis of one subquery-derived table\<close>

text \<open>
  The first lines of \<^verbatim>\<open>analyzeSubqueryAlias\<close> build the scope the body is analyzed
  under, the local variable \<^verbatim>\<open>subScope\<close>.
\<close>

definition subScope_of :: "Scope option \<Rightarrow> Scope" where
  "subScope_of scope =
    (let subScope = newScopeWithDepth (RecursionDepth scope + 1)
     in if scope \<noteq> None \<and> length (InnerToOuter scope) > 0
        then subScope\<lparr>nodes := InnerToOuter scope\<rparr>
        else subScope)"

fun setOuterScopeVisibility :: "node \<Rightarrow> bool \<Rightarrow> node" where
  "setOuterScopeVisibility (SubqueryAlias nm cols _ c) v = SubqueryAlias nm cols v c"
| "setOuterScopeVisibility n _ = n"

text \<open>
  \<^verbatim>\<open>analyzeSubqueryAlias\<close>. The source writes \<^verbatim>\<open>n.OuterScopeVisibility = true\<close>
  through the pointer \<^verbatim>\<open>n\<close>, on every path that follows. The model passes this
  state explicitly: the first component of the result is the derived table \<^verbatim>\<open>*n\<close>
  as it is after the call, the second what the call returns. \<^verbatim>\<open>schemaLength\<close> is
  outside the source files and is a parameter.
\<close>

definition analyzeSubqueryAlias ::
  "Analyzer \<Rightarrow> (node \<Rightarrow> nat) \<Rightarrow> node \<Rightarrow> Scope option \<Rightarrow> RuleSelector \<Rightarrow> bool
    \<Rightarrow> node \<times> (error + node \<times> TreeIdentity)" where
  "analyzeSubqueryAlias a schemaLength n0 scope sel finalize =
    (let subScope = subScope_of scope;
         n = (if scope \<noteq> None \<and> length (InnerToOuter scope) > 0
              then setOuterScopeVisibility n0 True else n0);
         (child, same, err) =
           (if finalize
            then analyzeStartingAtBatch a (Child n) (Some subScope) ''default-rules'' sel
            else analyzeThroughBatch a (Child n) (Some subScope) ''default-rules'' sel)
     in (n,
         case err of
           Some e \<Rightarrow> Inl e
         | None \<Rightarrow>
             if length (Columns n) > 0 \<and> schemaLength child \<noteq> length (Columns n)
             then Inl ErrColumnCountMismatch
             else if same then Inr (n, SameTree)
             else (case WithChildren n [StripPassthroughNodes child] of
                     Inl e \<Rightarrow> Inl e
                   | Inr newn \<Rightarrow> Inr (newn, NewTree))))"

section \<open>Tree transformation\<close>

text \<open>
  Modelled from the spec: the package \<^verbatim>\<open>transform\<close> (\<^verbatim>\<open>Node\<close>, \<^verbatim>\<open>NodeWithCtx\<close>,
  \<^verbatim>\<open>Expr\<close>, \<^verbatim>\<open>NodeExprsWithNode\<close>, \<^verbatim>\<open>Inspect\<close>) and \<^verbatim>\<open>sql.Inspect\<close>, which the rules
  call and which are outside the source files. Section 4.1: a rewrite
  function is applied bottom-up (children rewritten before the node itself is offered
  to the function); the context-aware mode also hands the parent and the index of the
  node among its siblings to the function, and consults a selector before descending
  into each child, pruning the whole subtree where it answers false; if the function
  returns \<^verbatim>\<open>SameTree\<close> for every node the result is the input and \<^verbatim>\<open>SameTree\<close>, and
  a node with a changed child is rebuilt and reported \<^verbatim>\<open>NewTree\<close>; for an
  expression-bearing node each sub-expression is rewritten on its own and the node is
  rebuilt once, with the full new list, if any of them changed.

  \<open>rewriteEach\<close> is the loop shared by all of them (and written out in
  \<^verbatim>\<open>resolveSubqueries\<close>): the elements are rewritten left to right, the first error
  ends the loop, an element reported \<^verbatim>\<open>NewTree\<close> is written into a copy of the
  list, and the loop reports \<^verbatim>\<open>SameTree\<close> when no copy was made.
\<close>

fun rewriteEach :: "(nat \<Rightarrow> 'a \<Rightarrow> error + 'a \<times> TreeIdentity) \<Rightarrow> nat \<Rightarrow> 'a list \<Rightarrow> error + 'a list \<times> TreeIdentity" where
  "rewriteEach g i [] = Inr ([], SameTree)"
| "rewriteEach g i (x # xs) =
    (case g i x of
       Inl err \<Rightarrow> Inl err
     | Inr (x', same) \<Rightarrow>
         (case rewriteEach g (Suc i) xs of
            Inl err \<Rightarrow> Inl err
          | Inr (xs', sames) \<Rightarrow> Inr ((if same then x else x') # xs', same \<and> sames)))"

lemma rewriteEach_cong [fundef_cong]:
  "xs = ys \<Longrightarrow> i = j \<Longrightarrow> (\<And>k x. x \<in> set ys \<Longrightarrow> g k x = h k x)
    \<Longrightarrow> rewriteEach g i xs = rewriteEach h j ys"
proof (induction ys arbitrary: xs i j)
  case Nil
  then show ?case by simp
next
  case (Cons y ys)
  have tl: "rewriteEach g (Suc j) ys = rewriteEach h (Suc j) ys"
    using Cons.prems by (intro Cons.IH) simp_all
  have hd: "g j y = h j y"
    using Cons.prems by simp
  show ?case
    unfolding Cons.prems(1) Cons.prems(2) rewriteEach.simps tl hd by (rule refl)
qed

lemma size_Children: "c \<in> set (Children n) \<Longrightarrow> size c < size n"
  by (cases n) (auto simp: less_Suc_eq_le dest: size_list_estimation')

lemma size_expr_Children: "c \<in> set (expr_Children e) \<Longrightarrow> size c < size e"
  by (cases e) (auto simp: less_Suc_eq_le dest: size_list_estimation')

function transform_Node :: "node \<Rightarrow> (node \<Rightarrow> error + node \<times> TreeIdentity) \<Rightarrow> error + node \<times> TreeIdentity" where
  "transform_Node node f =
    (if length (Children node) = 0 then f node
     else case rewriteEach (\<lambda>i child. transform_Node child f) 0 (Children node) of
            Inl err \<Rightarrow> Inl err
          | Inr (newChildren, sameC) \<Rightarrow>
              (case (if sameC then Inr node else WithChildren node newChildren) of
                 Inl err \<Rightarrow> Inl err
               | Inr node' \<Rightarrow>
                   (case f node' of
                      Inl err \<Rightarrow> Inl err
                    | Inr (node'', sameN) \<Rightarrow> Inr (node'', sameC \<and> sameN))))"
  by pat_completeness auto
termination
  by (relation "measure (\<lambda>(n, f). size n)") (auto simp: size_Children)

declare transform_Node.simps [simp del]

text \<open>
  The context of \<^verbatim>\<open>NodeWithCtx\<close>: the node, its parent and its index among the
  parent's children. At the root there is no parent and the index is -1. A nil
  selector descends everywhere.
\<close>

record Context =
  Node :: node
  Parent :: "node option"
  ChildNum :: int

function nodeWithCtxHelper ::
  "Context \<Rightarrow> (Context \<Rightarrow> bool) option \<Rightarrow> (Context \<Rightarrow> error + node \<times> TreeIdentity) \<Rightarrow> error + node \<times> TreeIdentity" where
  "nodeWithCtxHelper c s f =
    (if length (Children (Node c)) = 0 then f c
     else case rewriteEach
                 (\<lambda>i child.
                    if (case s of None \<Rightarrow> True
                        | Some sel \<Rightarrow> sel \<lparr>Node = child, Parent = Some (Node c), ChildNum = int i\<rparr>)
                    then nodeWithCtxHelper \<lparr>Node = child, Parent = Some (Node c), ChildNum = int i\<rparr> s f
                    else Inr (child, SameTree))
                 0 (Children (Node c)) of
            Inl err \<Rightarrow> Inl err
          | Inr (newChildren, sameC) \<Rightarrow>
              (case (if sameC then Inr (Node c) else WithChildren (Node c) newChildren) of
                 Inl err \<Rightarrow> Inl err
               | Inr node \<Rightarrow>
                   (case f (c\<lparr>Node := node\<rparr>) of
                      Inl err \<Rightarrow> Inl err
                    | Inr (node', sameN) \<Rightarrow> Inr (node', sameC \<and> sameN))))"
  by pat_completeness auto
termination
  by (relation "measure (\<lambda>(c, s, f). size (Node c))") (auto simp: size_Children)

declare nodeWithCtxHelper.simps [simp del]

definition transform_NodeWithCtx ::
  "node \<Rightarrow> (Context \<Rightarrow> bool) option \<Rightarrow> (Context \<Rightarrow> error + node \<times> TreeIdentity) \<Rightarrow> error + node \<times> TreeIdentity" where
  "transform_NodeWithCtx n s f = nodeWithCtxHelper \<lparr>Node = n, Parent = None, ChildNum = -1\<rparr> s f"

function transform_Expr :: "expr \<Rightarrow> (expr \<Rightarrow> error + expr \<times> TreeIdentity) \<Rightarrow> error + expr \<times> TreeIdentity" where
  "transform_Expr e f =
    (if length (expr_Children e) = 0 then f e
     else case rewriteEach (\<lambda>i c. transform_Expr c f) 0 (expr_Children e) of
            Inl err \<Rightarrow> Inl err
          | Inr (newChildren, sameC) \<Rightarrow>
              (case (if sameC then Inr e else expr_WithChildren e newChildren) of
                 Inl err \<Rightarrow> Inl err
               | Inr e' \<Rightarrow>
                   (case f e' of
                      Inl err \<Rightarrow> Inl err
                    | Inr (e'', sameN) \<Rightarrow> Inr (e'', sameC \<and> sameN))))"
  by pat_completeness auto
termination
  by (relation "measure (\<lambda>(e, f). size e)") (auto simp: size_expr_Children)

declare transform_Expr.simps [simp del]







section \<open>Caching of subquery results\<close>




fun isSubquery :: "expr \<Rightarrow> bool" where
  "isSubquery (Subquery _ _) = True"
| "isSubquery _ = False"

fun isSubqueryAlias :: "node \<Rightarrow> bool" where
  "isSubqueryAlias (SubqueryAlias _ _ _ _) = True"
| "isSubqueryAlias _ = False"






section \<open>The nodes and expressions of a tree\<close>

text \<open>
  To state what a rule does to every node of a plan: \<open>subnodes n\<close> lists \<open>n\<close> and
  all its descendants through \<^verbatim>\<open>Children\<close>, in pre-order; \<open>subexprs e\<close> does the same
  for an expression. Neither enters the plan of a subquery expression, which is not a
  child of the expression.
\<close>

function subnodes :: "node \<Rightarrow> node list" where
  "subnodes n = n # concat (map subnodes (Children n))"
  by pat_completeness auto
termination
  by (relation "measure size") (auto simp: size_Children)

declare subnodes.simps [simp del]

function subexprs :: "expr \<Rightarrow> expr list" where
  "subexprs e = e # concat (map subexprs (expr_Children e))"
  by pat_completeness auto
termination
  by (relation "measure size") (auto simp: size_expr_Children)

declare subexprs.simps [simp del]

section \<open>Bottom-up rewriting as a pure function\<close>

text \<open>
  What a transformation computes when its rewrite function never fails, written
  without errors and identities: \<open>mapUp g\<close> rewrites the children of a node, then
  applies \<open>g\<close> to the node rebuilt with them; \<open>exprUp g\<close> does the same on an
  expression; \<open>mapExpressions h\<close> applies \<open>h\<close> to each expression of a node.
\<close>

fun mapChildren :: "(node \<Rightarrow> node) \<Rightarrow> node \<Rightarrow> node" where
  "mapChildren h (ResolvedTable t) = ResolvedTable t"
| "mapChildren h (UnresolvedTable t) = UnresolvedTable t"
| "mapChildren h (ShowVariables f) = ShowVariables f"
| "mapChildren h (Project es c) = Project es (h c)"
| "mapChildren h (Filter e c) = Filter e (h c)"
| "mapChildren h (SubqueryAlias nm cols vis c) = SubqueryAlias nm cols vis (h c)"
| "mapChildren h (TableAlias nm c) = TableAlias nm (h c)"
| "mapChildren h (QueryProcess c) = QueryProcess (h c)"
| "mapChildren h (StartTransaction c) = StartTransaction (h c)"
| "mapChildren h (TransactionCommittingNode c) = TransactionCommittingNode (h c)"
| "mapChildren h (TriggerBeginEndBlock cs) = TriggerBeginEndBlock (map h cs)"
| "mapChildren h (JoinNode t k e l r) = JoinNode t k e (h l) (h r)"
| "mapChildren h (IndexedJoin t k e l r) = IndexedJoin t k e (h l) (h r)"
| "mapChildren h (CachedResults c) = CachedResults (h c)"
| "mapChildren h (StripRowNode c k) = StripRowNode (h c) k"

lemma mapChildren_cong [fundef_cong]:
  "n = m \<Longrightarrow> (\<And>c. c \<in> set (Children m) \<Longrightarrow> f c = g c) \<Longrightarrow> mapChildren f n = mapChildren g m"
  by (cases m) auto

function mapUp :: "(node \<Rightarrow> node) \<Rightarrow> node \<Rightarrow> node" where
  "mapUp g n = g (mapChildren (mapUp g) n)"
  by pat_completeness auto
termination
  by (relation "measure (\<lambda>(g, n). size n)") (auto simp: size_Children)

declare mapUp.simps [simp del]

fun mapExprChildren :: "(expr \<Rightarrow> expr) \<Rightarrow> expr \<Rightarrow> expr" where
  "mapExprChildren h (FunctionCall nm nd args) = FunctionCall nm nd (map h args)"
| "mapExprChildren h e = e"

lemma mapExprChildren_cong [fundef_cong]:
  "e = d \<Longrightarrow> (\<And>c. c \<in> set (expr_Children d) \<Longrightarrow> f c = g c) \<Longrightarrow> mapExprChildren f e = mapExprChildren g d"
  by (cases d) auto

function exprUp :: "(expr \<Rightarrow> expr) \<Rightarrow> expr \<Rightarrow> expr" where
  "exprUp g e = g (mapExprChildren (exprUp g) e)"
  by pat_completeness auto
termination
  by (relation "measure (\<lambda>(g, e). size e)") (auto simp: size_expr_Children)

declare exprUp.simps [simp del]


section \<open>When a subquery expression may be cached\<close>






section \<open>Flattening of table aliases\<close>

text \<open>
  Modelled from the spec: the method \<^verbatim>\<open>WithName\<close> of \<^verbatim>\<open>SubqueryAlias\<close> and
  \<^verbatim>\<open>TableAlias\<close>, outside the source files (section 3: nodes are immutable, rewriting
  produces new trees). It returns a renamed copy.
\<close>

fun WithName :: "node \<Rightarrow> string \<Rightarrow> node" where
  "WithName (SubqueryAlias _ cols vis c) nm = SubqueryAlias nm cols vis c"
| "WithName (TableAlias _ c) nm = TableAlias nm c"
| "WithName n _ = n"

fun isTableAlias :: "node \<Rightarrow> bool" where
  "isTableAlias (TableAlias _ _) = True"
| "isTableAlias _ = False"

text \<open>
  \<^verbatim>\<open>flattenTableAliases\<close>: the function handed to \<^verbatim>\<open>transform.Node\<close>, then the
  rule. \<^verbatim>\<open>n.Children()[0]\<close> of a \<^verbatim>\<open>TableAlias\<close> is its only child.
\<close>

fun flattenTableAliases_f :: "node \<Rightarrow> error + node \<times> TreeIdentity" where
  "flattenTableAliases_f (TableAlias name child) =
     (if isSubqueryAlias child then Inr (WithName child name, NewTree)
      else if isTableAlias child then Inr (WithName child name, NewTree)
      else Inr (TableAlias name child, SameTree))"
| "flattenTableAliases_f n = Inr (n, SameTree)"

definition flattenTableAliases :: "node \<Rightarrow> error + node \<times> TreeIdentity" where
  "flattenTableAliases n = transform_Node n flattenTableAliases_f"

text \<open>
  To state the rule's effect: a node is \<open>flattenable\<close> when it is a \<^verbatim>\<open>TableAlias\<close>
  whose child is a \<^verbatim>\<open>SubqueryAlias\<close> or a \<^verbatim>\<open>TableAlias\<close>; \<open>flatten1\<close> replaces such a
  node by its child under the outer name.
\<close>

fun flattenable :: "node \<Rightarrow> bool" where
  "flattenable (TableAlias _ c) = (isSubqueryAlias c \<or> isTableAlias c)"
| "flattenable _ = False"

fun flatten1 :: "node \<Rightarrow> node" where
  "flatten1 (TableAlias nm c) = (if isSubqueryAlias c \<or> isTableAlias c then WithName c nm else TableAlias nm c)"
| "flatten1 n = n"

section \<open>Join scope length\<close>

text \<open>
  Modelled from the spec: the methods \<^verbatim>\<open>WithScopeLen\<close>, \<^verbatim>\<open>Left\<close> and \<^verbatim>\<open>Right\<close> of
  \<^verbatim>\<open>plan.JoinNode\<close> and the constructor \<^verbatim>\<open>NewStripRowNode\<close>, outside the source files
  (section 4.5: a join node is annotated with the column count of the enclosing scope;
  strip nodes are put around its children). \<open>isJoinNode\<close> is the type assertion
  \<^verbatim>\<open>n.(plan.JoinNode)\<close>.
\<close>

fun isJoinNode :: "node \<Rightarrow> bool" where
  "isJoinNode (JoinNode _ _ _ _ _) = True"
| "isJoinNode _ = False"

fun isStripRowNode :: "node \<Rightarrow> bool" where
  "isStripRowNode (StripRowNode _ _) = True"
| "isStripRowNode _ = False"

fun WithScopeLen :: "node \<Rightarrow> nat \<Rightarrow> node" where
  "WithScopeLen (JoinNode t _ e l r) k = JoinNode t k e l r"
| "WithScopeLen n _ = n"

fun ScopeLen :: "node \<Rightarrow> nat" where
  "ScopeLen (JoinNode _ k _ _ _) = k"
| "ScopeLen (IndexedJoin _ k _ _ _) = k"
| "ScopeLen _ = 0"

fun Left :: "node \<Rightarrow> node" where
  "Left (JoinNode _ _ _ l _) = l"
| "Left (IndexedJoin _ _ _ l _) = l"
| "Left n = n"

fun Right :: "node \<Rightarrow> node" where
  "Right (JoinNode _ _ _ _ r) = r"
| "Right (IndexedJoin _ _ _ _ r) = r"
| "Right n = n"

definition NewStripRowNode :: "node \<Rightarrow> nat \<Rightarrow> node" where
  "NewStripRowNode child scopeLen = StripRowNode child scopeLen"

text \<open>
  \<^verbatim>\<open>setJoinScopeLen\<close>: the function handed to \<^verbatim>\<open>transform.Node\<close>, then the rule.
  \<^verbatim>\<open>Scope.Schema\<close> is outside the source files and is the parameter \<open>Schema\<close>.
\<close>

definition setJoinScopeLen_f :: "nat \<Rightarrow> node \<Rightarrow> error + node \<times> TreeIdentity" where
  "setJoinScopeLen_f scopeLen n =
    (if isJoinNode n
     then (let nj = WithScopeLen n scopeLen
           in if \<not> isStripRowNode (Left nj)
              then (case WithChildren nj [NewStripRowNode (Left nj) scopeLen, NewStripRowNode (Right nj) scopeLen] of
                      Inl err \<Rightarrow> Inl err
                    | Inr nj' \<Rightarrow> Inr (nj', NewTree))
              else Inr (nj, NewTree))
     else Inr (n, SameTree))"

definition setJoinScopeLen ::
  "(Scope option \<Rightarrow> string list) \<Rightarrow> node \<Rightarrow> Scope option \<Rightarrow> error + node \<times> TreeIdentity" where
  "setJoinScopeLen Schema n scope =
    (let scopeLen = length (Schema scope)
     in if scopeLen = 0 then Inr (n, SameTree)
        else transform_Node n (setJoinScopeLen_f scopeLen))"

text \<open>
  To state the rule's effect: \<open>annotateJoin k\<close> writes the scope length into a join
  and wraps both children in strip nodes unless the left child is one already;
  \<open>stripPaired n\<close> says that in every join of \<open>n\<close> whose left child is a strip node
  the right child is one too, as in every join that the rule has built.
\<close>

fun annotateJoin :: "nat \<Rightarrow> node \<Rightarrow> node" where
  "annotateJoin k (JoinNode t _ e l r) =
     (if isStripRowNode l then JoinNode t k e l r
      else JoinNode t k e (StripRowNode l k) (StripRowNode r k))"
| "annotateJoin k n = n"

definition stripPaired :: "node \<Rightarrow> bool" where
  "stripPaired n \<longleftrightarrow>
     (\<forall>x\<in>set (subnodes n). isJoinNode x \<and> isStripRowNode (Left x) \<longrightarrow> isStripRowNode (Right x))"

section \<open>Context-aware rewriting as a pure function\<close>

text \<open>
  What \<^verbatim>\<open>NodeWithCtx\<close> computes when its function never fails: \<open>ctxUp s g\<close>
  rewrites the children that the selector \<open>s\<close> admits, each in the context of its
  parent and index, then applies \<open>g\<close> to the node rebuilt with them; \<open>ctxSame s t\<close>
  is the identity reported, where \<open>t\<close> is the identity that the function reports at
  one node.
\<close>

definition selected :: "(Context \<Rightarrow> bool) option \<Rightarrow> Context \<Rightarrow> bool" where
  "selected s cc = (case s of None \<Rightarrow> True | Some sel \<Rightarrow> sel cc)"

definition childCtx :: "node \<Rightarrow> nat \<Rightarrow> node \<Rightarrow> Context" where
  "childCtx parent i child = \<lparr>Node = child, Parent = Some parent, ChildNum = int i\<rparr>"

fun mapChildrenIdx :: "(nat \<Rightarrow> node \<Rightarrow> node) \<Rightarrow> node \<Rightarrow> node" where
  "mapChildrenIdx h (ResolvedTable t) = ResolvedTable t"
| "mapChildrenIdx h (UnresolvedTable t) = UnresolvedTable t"
| "mapChildrenIdx h (ShowVariables f) = ShowVariables f"
| "mapChildrenIdx h (Project es c) = Project es (h 0 c)"
| "mapChildrenIdx h (Filter e c) = Filter e (h 0 c)"
| "mapChildrenIdx h (SubqueryAlias nm cols vis c) = SubqueryAlias nm cols vis (h 0 c)"
| "mapChildrenIdx h (TableAlias nm c) = TableAlias nm (h 0 c)"
| "mapChildrenIdx h (QueryProcess c) = QueryProcess (h 0 c)"
| "mapChildrenIdx h (StartTransaction c) = StartTransaction (h 0 c)"
| "mapChildrenIdx h (TransactionCommittingNode c) = TransactionCommittingNode (h 0 c)"
| "mapChildrenIdx h (TriggerBeginEndBlock cs) = TriggerBeginEndBlock (map (\<lambda>(i, c). h i c) (enumerate 0 cs))"
| "mapChildrenIdx h (JoinNode t k e l r) = JoinNode t k e (h 0 l) (h 1 r)"
| "mapChildrenIdx h (IndexedJoin t k e l r) = IndexedJoin t k e (h 0 l) (h 1 r)"
| "mapChildrenIdx h (CachedResults c) = CachedResults (h 0 c)"
| "mapChildrenIdx h (StripRowNode c k) = StripRowNode (h 0 c) k"

lemma in_set_enumerate_snd: "(i, c) \<in> set (enumerate k cs) \<Longrightarrow> c \<in> set cs"
  by (auto simp: in_set_enumerate_eq)

lemma mapChildrenIdx_cong [fundef_cong]:
  "n = m \<Longrightarrow> (\<And>i c. c \<in> set (Children m) \<Longrightarrow> f i c = g i c) \<Longrightarrow> mapChildrenIdx f n = mapChildrenIdx g m"
  by (cases m) (auto dest: in_set_enumerate_snd)

function ctxUp :: "(Context \<Rightarrow> bool) option \<Rightarrow> (Context \<Rightarrow> node) \<Rightarrow> Context \<Rightarrow> node" where
  "ctxUp s g c =
     g (c\<lparr>Node := mapChildrenIdx
                     (\<lambda>i child. if selected s (childCtx (Node c) i child)
                                 then ctxUp s g (childCtx (Node c) i child) else child)
                     (Node c)\<rparr>)"
  by pat_completeness auto

termination
  by (relation "measure (\<lambda>(s, g, c). size (Node c))") (auto simp: size_Children childCtx_def)

declare ctxUp.simps [simp del]

function ctxSame :: "(Context \<Rightarrow> bool) option \<Rightarrow> (Context \<Rightarrow> bool) \<Rightarrow> Context \<Rightarrow> bool" where
  "ctxSame s t c =
     (t c \<and> list_all (\<lambda>(i, child). selected s (childCtx (Node c) i child)
                           \<longrightarrow> ctxSame s t (childCtx (Node c) i child))
               (enumerate 0 (Children (Node c))))"
  by pat_completeness auto

termination
  by (relation "measure (\<lambda>(s, t, c). size (Node c))")
     (auto simp: size_Children childCtx_def dest: in_set_enumerate_snd)

declare ctxSame.simps [simp del]

section \<open>Caching of subquery-derived tables in joins\<close>

text \<open>
  Modelled from the spec: \<^verbatim>\<open>JoinType()\<close> of a join, the field \<^verbatim>\<open>UnaryNode.Child\<close> and
  the constructor \<^verbatim>\<open>NewCachedResults\<close>, outside the source files (section 4.4: a
  caching node is put around a derived table and removed again).

  \<^verbatim>\<open>cacheSubqueryAlisesInJoins\<close>. \<open>parentIs P c\<close> is a type test on \<^verbatim>\<open>c.Parent\<close>,
  false when there is no parent. The three closures of the source are
  \<open>cacheSubqueryAlisesInJoins_wrap\<close> (the first pass), and
  \<open>cacheSubqueryAlisesInJoins_selector\<close> and \<open>cacheSubqueryAlisesInJoins_unwrap\<close>
  (the cleanup, run only when the scope is empty).
\<close>

fun isIndexedJoin :: "node \<Rightarrow> bool" where
  "isIndexedJoin (IndexedJoin _ _ _ _ _) = True"
| "isIndexedJoin _ = False"

fun isCachedResults :: "node \<Rightarrow> bool" where
  "isCachedResults (CachedResults _) = True"
| "isCachedResults _ = False"

fun JoinType_of :: "node \<Rightarrow> JoinType" where
  "JoinType_of (JoinNode t _ _ _ _) = t"
| "JoinType_of (IndexedJoin t _ _ _ _) = t"
| "JoinType_of _ = JoinTypeInner"

fun UnaryNode_Child :: "node \<Rightarrow> node" where
  "UnaryNode_Child (CachedResults c) = c"
| "UnaryNode_Child n = n"

definition NewCachedResults :: "node \<Rightarrow> node" where
  "NewCachedResults n = CachedResults n"

definition parentIs :: "(node \<Rightarrow> bool) \<Rightarrow> Context \<Rightarrow> bool" where
  "parentIs P c = (case Parent c of None \<Rightarrow> False | Some p \<Rightarrow> P p)"

definition cacheSubqueryAlisesInJoins_wrap :: "Context \<Rightarrow> error + node \<times> TreeIdentity" where
  "cacheSubqueryAlisesInJoins_wrap c =
    (let isJoin = parentIs isJoinNode c;
         isIndexedJoin = parentIs isIndexedJoin c
     in if (isJoin \<or> isIndexedJoin) \<and> isSubqueryAlias (Node c)
        then Inr (NewCachedResults (Node c), NewTree)
        else Inr (Node c, SameTree))"

definition cacheSubqueryAlisesInJoins_selector :: "Context \<Rightarrow> bool" where
  "cacheSubqueryAlisesInJoins_selector c =
    (if parentIs isIndexedJoin c then ChildNum c = 0
     else if parentIs isJoinNode c
          then (if parentIs (\<lambda>j. JoinType_of j = JoinTypeRight) c then ChildNum c = 1 else ChildNum c = 0)
          else True)"

definition cacheSubqueryAlisesInJoins_unwrap :: "Context \<Rightarrow> error + node \<times> TreeIdentity" where
  "cacheSubqueryAlisesInJoins_unwrap c =
    (if isCachedResults (Node c) then Inr (UnaryNode_Child (Node c), NewTree)
     else Inr (Node c, SameTree))"

definition cacheSubqueryAlisesInJoins :: "node \<Rightarrow> Scope option \<Rightarrow> error + node \<times> TreeIdentity" where
  "cacheSubqueryAlisesInJoins n scope =
    (case transform_NodeWithCtx n None cacheSubqueryAlisesInJoins_wrap of
       Inl err \<Rightarrow> Inl err
     | Inr (n1, sameA) \<Rightarrow>
         if IsEmpty scope
         then (case transform_NodeWithCtx n1 (Some cacheSubqueryAlisesInJoins_selector)
                      cacheSubqueryAlisesInJoins_unwrap of
                 Inl err \<Rightarrow> Inl err
               | Inr (n2, sameD) \<Rightarrow> Inr (n2, sameA \<and> sameD))
         else Inr (n1, sameA \<and> SameTree))"

text \<open>
  To state the rule's effect. \<open>wrapJoinedAliases\<close> wraps every subquery-derived table
  that is a direct child of a join or an indexed join. \<open>primaryChild p i\<close> is what the
  selector of the cleanup answers for child \<open>i\<close> of \<open>p\<close>: child 0 of a join or indexed
  join, child 1 of a right join, and every child of a node that is no join (the
  selector ends with \<^verbatim>\<open>return true\<close>). \<open>primaryNodes n\<close> lists \<open>n\<close> and the nodes
  below it reached through such children only, that is without entering the
  non-primary child of a join; \<open>removePrimaryCache\<close> removes the caching wrappers
  among these nodes and nothing else; \<open>nonPrimary\<close> is the other child of a join.
\<close>

definition isJoin :: "node \<Rightarrow> bool" where
  "isJoin n \<longleftrightarrow> isJoinNode n \<or> isIndexedJoin n"

fun wrapAlias :: "node \<Rightarrow> node" where
  "wrapAlias (SubqueryAlias nm cols vis c) = CachedResults (SubqueryAlias nm cols vis c)"
| "wrapAlias n = n"

function wrapJoinedAliases :: "node \<Rightarrow> node" where
  "wrapJoinedAliases n =
     mapChildren (\<lambda>c. if isJoin n then wrapAlias (wrapJoinedAliases c) else wrapJoinedAliases c) n"
  by pat_completeness auto

termination
  by (relation "measure size") (auto simp: size_Children)

declare wrapJoinedAliases.simps [simp del]

definition primaryChild :: "node \<Rightarrow> nat \<Rightarrow> bool" where
  "primaryChild p i =
     (if isIndexedJoin p then i = 0
      else if isJoinNode p then (if JoinType_of p = JoinTypeRight then i = 1 else i = 0)
      else True)"

fun unwrapCache :: "node \<Rightarrow> node" where
  "unwrapCache (CachedResults c) = c"
| "unwrapCache n = n"

function removePrimaryCache :: "node \<Rightarrow> node" where
  "removePrimaryCache n =
     unwrapCache (mapChildrenIdx (\<lambda>i c. if primaryChild n i then removePrimaryCache c else c) n)"
  by pat_completeness auto

termination
  by (relation "measure size") (auto simp: size_Children)

declare removePrimaryCache.simps [simp del]

function primaryNodes :: "node \<Rightarrow> node list" where
  "primaryNodes n =
     n # concat (map (\<lambda>(i, c). if primaryChild n i then primaryNodes c else []) (enumerate 0 (Children n)))"
  by pat_completeness auto

termination
  by (relation "measure size") (auto simp: size_Children dest: in_set_enumerate_snd)

declare primaryNodes.simps [simp del]

definition hasJoinedAlias :: "node \<Rightarrow> bool" where
  "hasJoinedAlias n \<longleftrightarrow> (\<exists>m\<in>set (subnodes n). isJoin m \<and> (\<exists>c\<in>set (Children m). isSubqueryAlias c))"

definition hasPrimaryCache :: "node \<Rightarrow> bool" where
  "hasPrimaryCache n \<longleftrightarrow> (\<exists>m\<in>set (primaryNodes n). isCachedResults m)"

definition wrapOf :: "Context \<Rightarrow> node" where
  "wrapOf c = (if (parentIs isJoinNode c \<or> parentIs isIndexedJoin c) \<and> isSubqueryAlias (Node c)
               then CachedResults (Node c) else Node c)"

definition wrapSame :: "Context \<Rightarrow> bool" where
  "wrapSame c \<longleftrightarrow> \<not> ((parentIs isJoinNode c \<or> parentIs isIndexedJoin c) \<and> isSubqueryAlias (Node c))"



section \<open>Resolution of subqueries\<close>

text \<open>
  \<^verbatim>\<open>resolveSubqueries\<close> and \<^verbatim>\<open>finalizeSubqueries\<close> have the same text in the source
  but for the flag handed to the two analysis functions: \<open>subqueries_selectorFunc\<close>
  and \<open>subqueries_ctxFunc\<close> are their closures \<^verbatim>\<open>selectorFunc\<close> and \<^verbatim>\<open>ctxFunc\<close>, the
  latter with the flag as a parameter. The loop over the expressions of a node is
  \<open>rewriteEach\<close>.

  \<^verbatim>\<open>analyzeSubqueryAlias\<close> writes \<^verbatim>\<open>n.OuterScopeVisibility = true\<close> through the
  pointer \<^verbatim>\<open>n\<close>, which is the node of the tree itself. So the derived table carries
  the flag in the tree that the rule returns also when it is returned as
  \<^verbatim>\<open>SameTree\<close> and the traversal keeps the child it had; and \<^verbatim>\<open>context.Node\<close>,
  which is handed to \<^verbatim>\<open>newScope\<close>, shows the flag of the derived tables below it,
  which were visited before it. The traversal of the model works on values, so these
  writes are made on the tree before it is traversed: \<open>pointerWrites scope n\<close> is \<open>n\<close>
  with the flag set, when the scope is not empty, in every derived table that the
  traversal hands to \<^verbatim>\<open>ctxFunc\<close>, that is in those not below another derived table.
  This gives the tree and the calls of the source: the flag of a derived table is
  read by nothing before \<^verbatim>\<open>ctxFunc\<close> has been handed the table, the write depends on
  the scope only, and when the traversal ends with an error no tree is returned.
\<close>

function writeVisibility :: "node \<Rightarrow> node" where
  "writeVisibility n =
     (if isSubqueryAlias n then setOuterScopeVisibility n True else mapChildren writeVisibility n)"
  by pat_completeness auto

termination
  by (relation "measure size") (auto simp: size_Children)

declare writeVisibility.simps [simp del]

definition pointerWrites :: "Scope option \<Rightarrow> node \<Rightarrow> node" where
  "pointerWrites scope n =
     (if scope \<noteq> None \<and> length (InnerToOuter scope) > 0 then writeVisibility n else n)"

definition subqueries_selectorFunc :: "Context \<Rightarrow> bool" where
  "subqueries_selectorFunc c = (if parentIs isSubqueryAlias c then False else True)"

definition subqueries_ctxFunc ::
  "Analyzer \<Rightarrow> (node \<Rightarrow> nat) \<Rightarrow> (RuleSelector \<Rightarrow> RuleSelector) \<Rightarrow> Scope option \<Rightarrow> RuleSelector \<Rightarrow> bool
    \<Rightarrow> Context \<Rightarrow> error + node \<times> TreeIdentity" where
  "subqueries_ctxFunc a schemaLength NewSubqueryExprResolveSelector scope sel finalize c =
    (if isSubqueryAlias (Node c)
     then snd (analyzeSubqueryAlias a schemaLength (Node c) scope sel finalize)
     else if isExpressioner (Node c)
     then (case rewriteEach
                  (\<lambda>i expr. transform_Expr expr
                     (\<lambda>e. if isSubquery e
                          then analyzeSubqueryExpression a NewSubqueryExprResolveSelector (Node c) e scope sel finalize
                          else Inr (e, SameTree)))
                  0 (Expressions (Node c)) of
             Inl err \<Rightarrow> Inl err
           | Inr (newExprs, same) \<Rightarrow>
               if \<not> same
               then (case WithExpressions (Node c) newExprs of
                       Inl err \<Rightarrow> Inl err
                     | Inr newNode \<Rightarrow> Inr (newNode, NewTree))
               else Inr (Node c, SameTree))
     else Inr (Node c, SameTree))"

definition resolveSubqueries ::
  "Analyzer \<Rightarrow> (node \<Rightarrow> nat) \<Rightarrow> (RuleSelector \<Rightarrow> RuleSelector) \<Rightarrow> node \<Rightarrow> Scope option \<Rightarrow> RuleSelector
    \<Rightarrow> error + node \<times> TreeIdentity" where
  "resolveSubqueries a schemaLength NewSubqueryExprResolveSelector n scope sel =
     transform_NodeWithCtx (pointerWrites scope n) (Some subqueries_selectorFunc)
       (subqueries_ctxFunc a schemaLength NewSubqueryExprResolveSelector scope sel False)"

definition finalizeSubqueries ::
  "Analyzer \<Rightarrow> (node \<Rightarrow> nat) \<Rightarrow> (RuleSelector \<Rightarrow> RuleSelector) \<Rightarrow> node \<Rightarrow> Scope option \<Rightarrow> RuleSelector
    \<Rightarrow> error + node \<times> TreeIdentity" where
  "finalizeSubqueries a schemaLength NewSubqueryExprResolveSelector n scope sel =
     transform_NodeWithCtx (pointerWrites scope n) (Some subqueries_selectorFunc)
       (subqueries_ctxFunc a schemaLength NewSubqueryExprResolveSelector scope sel True)"

text \<open>
  To state the rule's effect: \<open>visibleNodes n\<close> lists the nodes the traversal hands
  to \<^verbatim>\<open>ctxFunc\<close>, that is \<open>n\<close> and its descendants not below a subquery-derived
  table; \<open>holdsSubquery m\<close> says that an expression of the node \<open>m\<close> is or contains
  a subquery expression.
\<close>

function visibleNodes :: "node \<Rightarrow> node list" where
  "visibleNodes n = n # (if isSubqueryAlias n then [] else concat (map visibleNodes (Children n)))"
  by pat_completeness auto

termination
  by (relation "measure size") (auto simp: size_Children)

declare visibleNodes.simps [simp del]

definition holdsSubquery :: "node \<Rightarrow> bool" where
  "holdsSubquery m \<longleftrightarrow> (\<exists>e\<in>set (Expressions m). \<exists>x\<in>set (subexprs e). isSubquery x)"

section \<open>Sample analyzers\<close>

text \<open>
  Three analyzers to run the rules on concrete plans: one that changes nothing and
  reports no error (its \<^verbatim>\<open>analyzeWithSelector\<close> wraps the result in a
  \<^verbatim>\<open>QueryProcess\<close>, as a top-level analysis does), one that fails with a given
  error, returning the node it was given, and one whose batch analyses look at the
  scope they are given: under a scope of recursion depth \<open>d\<close> they report a changed
  body, wrapped in a \<^verbatim>\<open>QueryProcess\<close>, and under any other scope they fail.
\<close>

definition idAnalyzer :: Analyzer where
  "idAnalyzer = \<lparr>analyzeWithSelector = (\<lambda>n s sel. (QueryProcess n, SameTree, None)),
     analyzeStartingAtBatch = (\<lambda>n s b sel. (n, SameTree, None)),
     analyzeThroughBatch = (\<lambda>n s b sel. (n, SameTree, None))\<rparr>"

definition failingAnalyzer :: "error \<Rightarrow> Analyzer" where
  "failingAnalyzer e = \<lparr>analyzeWithSelector = (\<lambda>n s sel. (n, SameTree, Some e)),
     analyzeStartingAtBatch = (\<lambda>n s b sel. (n, SameTree, Some e)),
     analyzeThroughBatch = (\<lambda>n s b sel. (n, SameTree, Some e))\<rparr>"

definition depthAnalyzer :: "nat \<Rightarrow> Analyzer" where
  "depthAnalyzer d = \<lparr>analyzeWithSelector = (\<lambda>n s sel. (n, SameTree, None)),
     analyzeStartingAtBatch =
       (\<lambda>n s b sel. if RecursionDepth s = d then (QueryProcess n, NewTree, None)
                    else (n, SameTree, Some (ErrOther ''depth''))),
     analyzeThroughBatch =
       (\<lambda>n s b sel. if RecursionDepth s = d then (QueryProcess n, NewTree, None)
                    else (n, SameTree, Some (ErrOther ''depth'')))\<rparr>"

text \<open>
  An analyzer for nested derived tables. Its batch analyses hand a body that is a
  subquery-derived table to \<^verbatim>\<open>analyzeSubqueryAlias\<close>, with the scope they were given,
  as the rule \<^verbatim>\<open>resolveSubqueries\<close> does for the root of a plan; any other body they
  wrap in a \<^verbatim>\<open>StripRowNode\<close> that records the recursion depth of the scope they were
  given. The parameter bounds the nesting. \<open>derivedChain k t\<close> is \<open>t\<close> below \<open>k\<close> nested
  derived tables.
\<close>

definition asAnalysis :: "node \<Rightarrow> error + node \<times> TreeIdentity \<Rightarrow> analysis" where
  "asAnalysis n r = (case r of Inl e \<Rightarrow> (n, SameTree, Some e) | Inr (n', same) \<Rightarrow> (n', same, None))"

primrec nestingAnalyzer :: "nat \<Rightarrow> Analyzer" where
  "nestingAnalyzer 0 =
     \<lparr>analyzeWithSelector = (\<lambda>n s sel. (n, SameTree, None)),
      analyzeStartingAtBatch = (\<lambda>n s b sel. (StripRowNode n (RecursionDepth s), NewTree, None)),
      analyzeThroughBatch = (\<lambda>n s b sel. (StripRowNode n (RecursionDepth s), NewTree, None))\<rparr>"
| "nestingAnalyzer (Suc k) =
     \<lparr>analyzeWithSelector = (\<lambda>n s sel. (n, SameTree, None)),
      analyzeStartingAtBatch =
        (\<lambda>n s b sel. if isSubqueryAlias n
                     then asAnalysis n (snd (analyzeSubqueryAlias (nestingAnalyzer k) (\<lambda>_. 0) n s sel True))
                     else (StripRowNode n (RecursionDepth s), NewTree, None)),
      analyzeThroughBatch =
        (\<lambda>n s b sel. if isSubqueryAlias n
                     then asAnalysis n (snd (analyzeSubqueryAlias (nestingAnalyzer k) (\<lambda>_. 0) n s sel False))
                     else (StripRowNode n (RecursionDepth s), NewTree, None))\<rparr>"

primrec derivedChain :: "nat \<Rightarrow> node \<Rightarrow> node" where
  "derivedChain 0 t = t"
| "derivedChain (Suc k) t = SubqueryAlias ''d'' [] False (derivedChain k t)"

text \<open>
  The class of errors that mean "not enough information yet": unresolved node,
  table-column-not-found, column-not-found.
\<close>

definition deferrable :: "error \<Rightarrow> bool" where
  "deferrable e = (e = ErrValidationResolved \<or> e = ErrTableColumnNotFound \<or> e = ErrColumnNotFound)"

section \<open>Properties\<close>

subsection \<open>The nodes of a tree, by constructor\<close>

lemma subnodes_ctor [simp]:
  "subnodes (ResolvedTable t) = [ResolvedTable t]"
  "subnodes (UnresolvedTable t) = [UnresolvedTable t]"
  "subnodes (ShowVariables fl) = [ShowVariables fl]"
  "subnodes (Project es c) = Project es c # subnodes c"
  "subnodes (Filter e c) = Filter e c # subnodes c"
  "subnodes (SubqueryAlias nm cols vis c) = SubqueryAlias nm cols vis c # subnodes c"
  "subnodes (TableAlias nm c) = TableAlias nm c # subnodes c"
  "subnodes (QueryProcess c) = QueryProcess c # subnodes c"
  "subnodes (StartTransaction c) = StartTransaction c # subnodes c"
  "subnodes (TransactionCommittingNode c) = TransactionCommittingNode c # subnodes c"
  "subnodes (TriggerBeginEndBlock cs) = TriggerBeginEndBlock cs # concat (map subnodes cs)"
  "subnodes (JoinNode jt k e l r) = JoinNode jt k e l r # subnodes l @ subnodes r"
  "subnodes (IndexedJoin jt k e l r) = IndexedJoin jt k e l r # subnodes l @ subnodes r"
  "subnodes (CachedResults c) = CachedResults c # subnodes c"
  "subnodes (StripRowNode c k) = StripRowNode c k # subnodes c"
  by (subst subnodes.simps, simp)+

lemma subexprs_ctor [simp]:
  "subexprs (Literal v) = [Literal v]"
  "subexprs (GetField i nm) = [GetField i nm]"
  "subexprs (UnresolvedColumn nm) = [UnresolvedColumn nm]"
  "subexprs (FunctionCall nm nd args) = FunctionCall nm nd args # concat (map subexprs args)"
  "subexprs (Subquery q c) = [Subquery q c]"
  by (subst subexprs.simps, simp)+

lemma mapUp_ctor [simp]:
  "mapUp g (ResolvedTable t) = g (ResolvedTable t)"
  "mapUp g (UnresolvedTable t) = g (UnresolvedTable t)"
  "mapUp g (ShowVariables fl) = g (ShowVariables fl)"
  "mapUp g (Project es c) = g (Project es (mapUp g c))"
  "mapUp g (Filter e c) = g (Filter e (mapUp g c))"
  "mapUp g (SubqueryAlias nm cols vis c) = g (SubqueryAlias nm cols vis (mapUp g c))"
  "mapUp g (TableAlias nm c) = g (TableAlias nm (mapUp g c))"
  "mapUp g (QueryProcess c) = g (QueryProcess (mapUp g c))"
  "mapUp g (StartTransaction c) = g (StartTransaction (mapUp g c))"
  "mapUp g (TransactionCommittingNode c) = g (TransactionCommittingNode (mapUp g c))"
  "mapUp g (TriggerBeginEndBlock cs) = g (TriggerBeginEndBlock (map (mapUp g) cs))"
  "mapUp g (JoinNode jt k e l r) = g (JoinNode jt k e (mapUp g l) (mapUp g r))"
  "mapUp g (IndexedJoin jt k e l r) = g (IndexedJoin jt k e (mapUp g l) (mapUp g r))"
  "mapUp g (CachedResults c) = g (CachedResults (mapUp g c))"
  "mapUp g (StripRowNode c k) = g (StripRowNode (mapUp g c) k)"
  by (subst mapUp.simps, simp)+

lemma exprUp_ctor [simp]:
  "exprUp g (Literal v) = g (Literal v)"
  "exprUp g (GetField i nm) = g (GetField i nm)"
  "exprUp g (UnresolvedColumn nm) = g (UnresolvedColumn nm)"
  "exprUp g (FunctionCall nm nd args) = g (FunctionCall nm nd (map (exprUp g) args))"
  "exprUp g (Subquery q c) = g (Subquery q c)"
  by (subst exprUp.simps, simp)+

subsection \<open>Transformations with a rewrite function that never fails\<close>


lemma WithChildren_map: "WithChildren n (map h (Children n)) = Inr (mapChildren h n)"
  by (cases n) simp_all

lemma mapChildren_id: "(\<And>c. c \<in> set (Children n) \<Longrightarrow> h c = c) \<Longrightarrow> mapChildren h n = n"
  by (cases n) (auto simp: map_idI)

lemma rewriteEach_total:
  assumes "\<And>k x. (k, x) \<in> set (enumerate i xs) \<Longrightarrow> g k x = Inr (h k x, s k x)"
      and "\<And>k x. (k, x) \<in> set (enumerate i xs) \<Longrightarrow> s k x \<Longrightarrow> h k x = x"
  shows "rewriteEach g i xs = Inr (map (\<lambda>(k, x). h k x) (enumerate i xs),
                                   list_all (\<lambda>(k, x). s k x) (enumerate i xs))"
  using assms
proof (induction xs arbitrary: i)
  case Nil
  then show ?case by simp
next
  case (Cons x xs)
  have hd: "g i x = Inr (h i x, s i x)" using Cons.prems(1) by simp
  have tl: "rewriteEach g (Suc i) xs = Inr (map (\<lambda>(k, x). h k x) (enumerate (Suc i) xs),
                                   list_all (\<lambda>(k, x). s k x) (enumerate (Suc i) xs))"
    by (rule Cons.IH) (use Cons.prems in auto)
  have same: "s i x \<Longrightarrow> h i x = x" using Cons.prems(2) by simp
  show ?case
    by (auto simp: hd tl same)
qed

lemma rewriteEach_total_plain:
  assumes "\<And>k x. x \<in> set xs \<Longrightarrow> g k x = Inr (h x, s x)"
      and "\<And>x. x \<in> set xs \<Longrightarrow> s x \<Longrightarrow> h x = x"
  shows "rewriteEach g i xs = Inr (map h xs, list_all s xs)"
  using assms
proof (induction xs arbitrary: i)
  case Nil
  then show ?case by simp
next
  case (Cons x xs)
  have hd: "g i x = Inr (h x, s x)" using Cons.prems(1) by simp
  have tl: "rewriteEach g (Suc i) xs = Inr (map h xs, list_all s xs)"
    by (rule Cons.IH) (use Cons.prems in auto)
  have same: "s x \<Longrightarrow> h x = x" using Cons.prems(2) by simp
  show ?case
    by (auto simp: hd tl same)
qed

lemma mapUp_same:
  assumes "\<And>m. s m \<Longrightarrow> g m = m"
  shows "list_all s (subnodes n) \<Longrightarrow> mapUp g n = n"
proof (induction n rule: subnodes.induct)
  case (1 n)
  have all: "s n" "\<And>c. c \<in> set (Children n) \<Longrightarrow> list_all s (subnodes c)"
    using "1.prems" by (subst (asm) subnodes.simps, auto simp: list_all_iff)+
  have "mapChildren (mapUp g) n = n"
    by (rule mapChildren_id) (simp add: "1.IH" all)
  then show ?case
    by (subst mapUp.simps) (simp add: assms all)
qed

lemma transform_Node_total:
  assumes f: "\<And>m. f m = Inr (g m, s m)" and same: "\<And>m. s m \<Longrightarrow> g m = m"
  shows "transform_Node n f = Inr (mapUp g n, list_all s (subnodes n))"
proof (induction n rule: subnodes.induct)
  case (1 n)
  show ?case
  proof (cases "Children n = []")
    case True
    then have "mapChildren (mapUp g) n = n" by (intro mapChildren_id) simp
    then show ?thesis
      using True
      by (subst transform_Node.simps, subst mapUp.simps, subst subnodes.simps) (simp add: f)
  next
    case False
    have re: "rewriteEach (\<lambda>i child. transform_Node child f) 0 (Children n)
            = Inr (map (mapUp g) (Children n), list_all (\<lambda>c. list_all s (subnodes c)) (Children n))"
      by (rule rewriteEach_total_plain) (auto simp: "1.IH" intro: mapUp_same [OF same])
    show ?thesis
    proof (cases "list_all (\<lambda>c. list_all s (subnodes c)) (Children n)")
      case True
      then have "mapChildren (mapUp g) n = n"
        by (intro mapChildren_id mapUp_same [OF same]) (auto simp: list_all_iff)
      then show ?thesis
        using False True
        by (subst transform_Node.simps, subst mapUp.simps, subst subnodes.simps)
           (auto simp: re f list_all_iff)
    next
      case nsame: False
      show ?thesis
        using False nsame
        by (subst transform_Node.simps, subst mapUp.simps, subst subnodes.simps)
           (auto simp: re f WithChildren_map list_all_iff)
    qed
  qed
qed









subsection \<open>Caching of subquery results\<close>













subsection \<open>Passthrough stripping\<close>





subsection \<open>Errors of a subquery expression's analysis\<close>

text \<open>
  Claim C2. Let the recursive analysis of the body of the subquery expression \<open>sq\<close>
  fail with the error \<open>e\<close>, leaving the partial result \<open>analyzed\<close>. In the tentative
  phase (\<open>finalize\<close> false) with \<open>e\<close> of the deferrable class, \<^verbatim>\<open>analyzeSubqueryExpression\<close>
  returns no error: the subquery with \<open>analyzed\<close> as its body, and \<^verbatim>\<open>NewTree\<close>. In the
  finalize phase, and for any other error in either phase, it returns the error \<open>e\<close>
  and no node.
\<close>

theorem analyzeSubqueryExpression_error:
  assumes "analyzeWithSelector a (Query sq) (Some (newScope scope n)) (if finalize then sel else nsel sel)
             = (analyzed, idt, Some e)"
  shows "(\<not> finalize \<and> deferrable e \<longrightarrow>
            analyzeSubqueryExpression a nsel n sq scope sel finalize = Inr (WithQuery sq analyzed, NewTree))
         \<and> (finalize \<or> \<not> deferrable e \<longrightarrow>
            analyzeSubqueryExpression a nsel n sq scope sel finalize = Inl e)
         \<and> (deferrable e \<longleftrightarrow> e \<in> {ErrValidationResolved, ErrTableColumnNotFound, ErrColumnNotFound})"
  using assms by (auto simp: analyzeSubqueryExpression_def deferrable_def Let_def)

theorem analyzeSubqueryExpression_error_witness:
  "analyzeSubqueryExpression (failingAnalyzer ErrColumnNotFound) id (ResolvedTable ''u'')
      (Subquery (QueryProcess (UnresolvedTable ''t'')) False) None (\<lambda>_. True) False
     = Inr (Subquery (QueryProcess (UnresolvedTable ''t'')) False, NewTree)
   \<and> analyzeSubqueryExpression (failingAnalyzer ErrColumnNotFound) id (ResolvedTable ''u'')
      (Subquery (QueryProcess (UnresolvedTable ''t'')) False) None (\<lambda>_. True) True
     = Inl ErrColumnNotFound
   \<and> analyzeSubqueryExpression (failingAnalyzer (ErrOther ''syntax'')) id (ResolvedTable ''u'')
      (Subquery (QueryProcess (UnresolvedTable ''t'')) False) None (\<lambda>_. True) False
     = Inl (ErrOther ''syntax'')"
  using analyzeSubqueryExpression_error [where a = "failingAnalyzer ErrColumnNotFound" and nsel = id
      and n = "ResolvedTable ''u''" and sq = "Subquery (QueryProcess (UnresolvedTable ''t'')) False"
      and scope = None and sel = "\<lambda>_. True" and finalize = False
      and analyzed = "QueryProcess (UnresolvedTable ''t'')" and idt = SameTree and e = ErrColumnNotFound]
    analyzeSubqueryExpression_error [where a = "failingAnalyzer ErrColumnNotFound" and nsel = id
      and n = "ResolvedTable ''u''" and sq = "Subquery (QueryProcess (UnresolvedTable ''t'')) False"
      and scope = None and sel = "\<lambda>_. True" and finalize = True
      and analyzed = "QueryProcess (UnresolvedTable ''t'')" and idt = SameTree and e = ErrColumnNotFound]
    analyzeSubqueryExpression_error [where a = "failingAnalyzer (ErrOther ''syntax'')" and nsel = id
      and n = "ResolvedTable ''u''" and sq = "Subquery (QueryProcess (UnresolvedTable ''t'')) False"
      and scope = None and sel = "\<lambda>_. True" and finalize = False
      and analyzed = "QueryProcess (UnresolvedTable ''t'')" and idt = SameTree and e = "ErrOther ''syntax''"]
  by (simp add: failingAnalyzer_def deferrable_def)

subsection \<open>The scope of a subquery-derived table\<close>

lemma RecursionDepth_subScope_of:
  "RecursionDepth (Some (subScope_of scope)) = RecursionDepth scope + 1"
  by (simp add: subScope_of_def RecursionDepth_def newScopeWithDepth_def Let_def)

lemma RecursionDepth_chain:
  "RecursionDepth (((\<lambda>s. Some (subScope_of s)) ^^ N) scope) = RecursionDepth scope + N"
  by (induction N) (simp_all add: RecursionDepth_subScope_of)

lemma IsEmpty_subScope_of: "IsEmpty scope \<Longrightarrow> IsEmpty (Some (subScope_of scope))"
  by (auto simp: IsEmpty_def subScope_of_def InnerToOuter_def newScopeWithDepth_def Let_def split: option.splits)

lemma analyzeSubqueryAlias_plain:
  assumes "(if fin then analyzeStartingAtBatch a c (Some (subScope_of scope)) ''default-rules'' sel
            else analyzeThroughBatch a c (Some (subScope_of scope)) ''default-rules'' sel)
             = (child, NewTree, None)"
      and "IsEmpty scope"
  shows "snd (analyzeSubqueryAlias a sl (SubqueryAlias nm [] vis c) scope sel fin)
           = Inr (SubqueryAlias nm [] vis (StripPassthroughNodes child), NewTree)"
  using assms
  by (auto simp: IsEmpty_def InnerToOuter_def analyzeSubqueryAlias_def Let_def split: option.splits if_splits)

text \<open>
  A chain of nested derived tables, analyzed from an empty scope of depth \<open>d\<close> by
  the analyzer that hands each nested derived table to \<^verbatim>\<open>analyzeSubqueryAlias\<close>: the
  body below \<open>k + 1\<close> derived tables is analyzed under a scope of depth \<open>d + k + 1\<close>,
  which the result records.
\<close>

lemma derivedChain_depth:
  "\<not> isSubqueryAlias t \<Longrightarrow> IsEmpty scope \<Longrightarrow>
   snd (analyzeSubqueryAlias (nestingAnalyzer k) sl (derivedChain (Suc k) t) scope sel fin)
     = Inr (derivedChain (Suc k) (StripRowNode t (RecursionDepth scope + Suc k)), NewTree)"
proof (induction k arbitrary: scope sl)
  case 0
  show ?case
    using analyzeSubqueryAlias_plain [where a = "nestingAnalyzer 0" and c = t and scope = scope
        and child = "StripRowNode t (RecursionDepth scope + 1)" and fin = fin and sel = sel, OF _ "0.prems"(2)]
    by (simp add: RecursionDepth_subScope_of)
next
  case (Suc k)
  have inner: "snd (analyzeSubqueryAlias (nestingAnalyzer k) (\<lambda>_. 0) (derivedChain (Suc k) t)
                  (Some (subScope_of scope)) sel fin)
     = Inr (derivedChain (Suc k) (StripRowNode t (RecursionDepth scope + Suc (Suc k))), NewTree)"
    using Suc.IH [OF Suc.prems(1) IsEmpty_subScope_of [OF Suc.prems(2)], where sl = "\<lambda>_. 0"]
    by (simp add: RecursionDepth_subScope_of)
  have ans: "(if fin then analyzeStartingAtBatch (nestingAnalyzer (Suc k)) (derivedChain (Suc k) t)
                  (Some (subScope_of scope)) ''default-rules'' sel
            else analyzeThroughBatch (nestingAnalyzer (Suc k)) (derivedChain (Suc k) t)
                  (Some (subScope_of scope)) ''default-rules'' sel)
             = (derivedChain (Suc k) (StripRowNode t (RecursionDepth scope + Suc (Suc k))), NewTree, None)"
    using inner by (cases fin) (simp_all add: asAnalysis_def)
  show ?case
    using analyzeSubqueryAlias_plain [OF ans Suc.prems(2), where sl = sl and nm = "''d''" and vis = False]
    by simp
qed

text \<open>
  Claim C4. The scope \<^verbatim>\<open>subScope\<close> that \<^verbatim>\<open>analyzeSubqueryAlias\<close> analyzes the body
  under has the recursion depth of the enclosing scope plus one (a nil scope has depth
  0, and no scope that a derived table is analyzed under has); so N nested derived
  tables below the outermost query, each analyzed under the scope of the one around
  it, reach depth N. When the enclosing scope is not empty the
  scope nodes are copied from it and the flag \<^verbatim>\<open>OuterScopeVisibility\<close> of the derived
  table is set; when it is empty (or nil) the new scope has no nodes and the flag is
  left as it was. The conjunct on two analyzers says that the body is analyzed under this scope
  and no other: the result depends on the analyzer only through what it answers at
  \<^verbatim>\<open>subScope\<close>. The last three say that the body is analyzed under it indeed, and
  what becomes of the answer of the phase's analysis of the body \<open>c\<close> under
  \<^verbatim>\<open>subScope\<close>: an error is returned as it is; a changed body, when the column count
  does not fail, is put into the derived table with its passthrough nodes stripped and
  reported \<^verbatim>\<open>NewTree\<close>; for an unchanged body the derived table is returned with
  \<^verbatim>\<open>SameTree\<close>.
\<close>

theorem analyzeSubqueryAlias_scope:
  "recursionDepth (subScope_of scope) = RecursionDepth scope + 1
   \<and> recursionDepth (subScope_of scope) \<noteq> 0 \<and> RecursionDepth None = 0
   \<and> RecursionDepth (((\<lambda>s. Some (subScope_of s)) ^^ N) None) = N
   \<and> (\<not> IsEmpty scope \<longrightarrow>
        nodes (subScope_of scope) = InnerToOuter scope
        \<and> fst (analyzeSubqueryAlias a schemaLength (SubqueryAlias nm cols vis c) scope sel finalize)
            = SubqueryAlias nm cols True c)
   \<and> (IsEmpty scope \<longrightarrow>
        nodes (subScope_of scope) = []
        \<and> fst (analyzeSubqueryAlias a schemaLength (SubqueryAlias nm cols vis c) scope sel finalize)
            = SubqueryAlias nm cols vis c)
   \<and> ((\<forall>n b s. analyzeStartingAtBatch a n (Some (subScope_of scope)) b s
                  = analyzeStartingAtBatch a' n (Some (subScope_of scope)) b s
              \<and> analyzeThroughBatch a n (Some (subScope_of scope)) b s
                  = analyzeThroughBatch a' n (Some (subScope_of scope)) b s) \<longrightarrow>
        analyzeSubqueryAlias a schemaLength n0 scope sel finalize
          = analyzeSubqueryAlias a' schemaLength n0 scope sel finalize)
   \<and> ((if finalize then analyzeStartingAtBatch a c (Some (subScope_of scope)) ''default-rules'' sel
         else analyzeThroughBatch a c (Some (subScope_of scope)) ''default-rules'' sel)
          = (child, same, Some err) \<longrightarrow>
        snd (analyzeSubqueryAlias a schemaLength (SubqueryAlias nm cols vis c) scope sel finalize) = Inl err)
   \<and> ((if finalize then analyzeStartingAtBatch a c (Some (subScope_of scope)) ''default-rules'' sel
         else analyzeThroughBatch a c (Some (subScope_of scope)) ''default-rules'' sel)
          = (child, NewTree, None)
        \<and> (cols = [] \<or> schemaLength child = length cols) \<longrightarrow>
        snd (analyzeSubqueryAlias a schemaLength (SubqueryAlias nm cols vis c) scope sel finalize)
          = Inr (SubqueryAlias nm cols (vis \<or> \<not> IsEmpty scope) (StripPassthroughNodes child), NewTree))
   \<and> ((if finalize then analyzeStartingAtBatch a c (Some (subScope_of scope)) ''default-rules'' sel
         else analyzeThroughBatch a c (Some (subScope_of scope)) ''default-rules'' sel)
          = (child, SameTree, None)
        \<and> (cols = [] \<or> schemaLength child = length cols) \<longrightarrow>
        snd (analyzeSubqueryAlias a schemaLength (SubqueryAlias nm cols vis c) scope sel finalize)
          = Inr (SubqueryAlias nm cols (vis \<or> \<not> IsEmpty scope) c, SameTree))"
proof -
  have d: "recursionDepth (subScope_of scope) = RecursionDepth scope + 1"
    by (simp add: subScope_of_def newScopeWithDepth_def Let_def)
  have z: "recursionDepth (subScope_of scope) \<noteq> 0 \<and> RecursionDepth None = 0"
    by (simp add: d RecursionDepth_def)
  have c: "RecursionDepth (((\<lambda>s. Some (subScope_of s)) ^^ N) None) = N"
    using RecursionDepth_chain [of N None] by (simp add: RecursionDepth_def)
  have ne: "\<not> IsEmpty scope \<longrightarrow>
        nodes (subScope_of scope) = InnerToOuter scope
        \<and> fst (analyzeSubqueryAlias a schemaLength (SubqueryAlias nm cols vis c) scope sel finalize)
            = SubqueryAlias nm cols True c"
    by (auto simp: IsEmpty_def InnerToOuter_def subScope_of_def newScopeWithDepth_def
        analyzeSubqueryAlias_def Let_def split: option.splits prod.splits)
  have e: "IsEmpty scope \<longrightarrow>
        nodes (subScope_of scope) = []
        \<and> fst (analyzeSubqueryAlias a schemaLength (SubqueryAlias nm cols vis c) scope sel finalize)
            = SubqueryAlias nm cols vis c"
    by (auto simp: IsEmpty_def InnerToOuter_def subScope_of_def newScopeWithDepth_def
        analyzeSubqueryAlias_def Let_def split: option.splits prod.splits)
  have x: "(\<forall>n b s. analyzeStartingAtBatch a n (Some (subScope_of scope)) b s
                  = analyzeStartingAtBatch a' n (Some (subScope_of scope)) b s
              \<and> analyzeThroughBatch a n (Some (subScope_of scope)) b s
                  = analyzeThroughBatch a' n (Some (subScope_of scope)) b s) \<longrightarrow>
        analyzeSubqueryAlias a schemaLength n0 scope sel finalize
          = analyzeSubqueryAlias a' schemaLength n0 scope sel finalize"
    by (simp add: analyzeSubqueryAlias_def Let_def)
  have r1: "(if finalize then analyzeStartingAtBatch a c (Some (subScope_of scope)) ''default-rules'' sel
         else analyzeThroughBatch a c (Some (subScope_of scope)) ''default-rules'' sel)
          = (child, same, Some err) \<longrightarrow>
        snd (analyzeSubqueryAlias a schemaLength (SubqueryAlias nm cols vis c) scope sel finalize) = Inl err"
    by (auto simp: IsEmpty_def InnerToOuter_def analyzeSubqueryAlias_def Let_def split: option.splits)
  have r2: "(if finalize then analyzeStartingAtBatch a c (Some (subScope_of scope)) ''default-rules'' sel
         else analyzeThroughBatch a c (Some (subScope_of scope)) ''default-rules'' sel)
          = (child, NewTree, None)
        \<and> (cols = [] \<or> schemaLength child = length cols) \<longrightarrow>
        snd (analyzeSubqueryAlias a schemaLength (SubqueryAlias nm cols vis c) scope sel finalize)
          = Inr (SubqueryAlias nm cols (vis \<or> \<not> IsEmpty scope) (StripPassthroughNodes child), NewTree)"
    by (auto simp: IsEmpty_def InnerToOuter_def analyzeSubqueryAlias_def Let_def split: option.splits)
  have r3: "(if finalize then analyzeStartingAtBatch a c (Some (subScope_of scope)) ''default-rules'' sel
         else analyzeThroughBatch a c (Some (subScope_of scope)) ''default-rules'' sel)
          = (child, SameTree, None)
        \<and> (cols = [] \<or> schemaLength child = length cols) \<longrightarrow>
        snd (analyzeSubqueryAlias a schemaLength (SubqueryAlias nm cols vis c) scope sel finalize)
          = Inr (SubqueryAlias nm cols (vis \<or> \<not> IsEmpty scope) c, SameTree)"
    by (auto simp: IsEmpty_def InnerToOuter_def analyzeSubqueryAlias_def Let_def split: option.splits)
  from d z c ne e x r1 r2 r3 show ?thesis by blast
qed

theorem analyzeSubqueryAlias_scope_witness:
  "RecursionDepth (Some (subScope_of (Some (subScope_of None)))) = 2
   \<and> subScope_of (Some \<lparr>nodes = [ResolvedTable ''t''], recursionDepth = 4\<rparr>)
       = \<lparr>nodes = [ResolvedTable ''t''], recursionDepth = 5\<rparr>
   \<and> fst (analyzeSubqueryAlias idAnalyzer (\<lambda>_. 1) (SubqueryAlias ''x'' [] False (ResolvedTable ''u''))
            (Some \<lparr>nodes = [ResolvedTable ''t''], recursionDepth = 4\<rparr>) (\<lambda>_. True) False)
       = SubqueryAlias ''x'' [] True (ResolvedTable ''u'')
   \<and> fst (analyzeSubqueryAlias idAnalyzer (\<lambda>_. 1) (SubqueryAlias ''x'' [] False (ResolvedTable ''u''))
            None (\<lambda>_. True) False)
       = SubqueryAlias ''x'' [] False (ResolvedTable ''u'')
   \<and> snd (analyzeSubqueryAlias (depthAnalyzer 5) (\<lambda>_. 1) (SubqueryAlias ''x'' [] False (ResolvedTable ''u''))
            (Some \<lparr>nodes = [ResolvedTable ''t''], recursionDepth = 4\<rparr>) (\<lambda>_. True) False)
       = Inr (SubqueryAlias ''x'' [] True (ResolvedTable ''u''), NewTree)
   \<and> snd (analyzeSubqueryAlias (depthAnalyzer 4) (\<lambda>_. 1) (SubqueryAlias ''x'' [] False (ResolvedTable ''u''))
            (Some \<lparr>nodes = [ResolvedTable ''t''], recursionDepth = 4\<rparr>) (\<lambda>_. True) False)
       = Inl (ErrOther ''depth'')
   \<and> snd (analyzeSubqueryAlias (depthAnalyzer 1) (\<lambda>_. 1) (SubqueryAlias ''x'' [] False (ResolvedTable ''u''))
            None (\<lambda>_. True) True)
       = Inr (SubqueryAlias ''x'' [] False (ResolvedTable ''u''), NewTree)
   \<and> snd (analyzeSubqueryAlias (nestingAnalyzer 1) (\<lambda>_. 0)
            (SubqueryAlias ''d'' [] False (SubqueryAlias ''d'' [] False (ResolvedTable ''u'')))
            None (\<lambda>_. True) False)
       = Inr (SubqueryAlias ''d'' [] False (SubqueryAlias ''d'' [] False (StripRowNode (ResolvedTable ''u'') 2)),
              NewTree)"
  using analyzeSubqueryAlias_scope [where scope = "Some \<lparr>nodes = [ResolvedTable ''t''], recursionDepth = 4\<rparr>"
      and N = 2 and a = idAnalyzer and a' = idAnalyzer and schemaLength = "\<lambda>_. 1" and nm = "''x''"
      and cols = "[]" and vis = False and c = "ResolvedTable ''u''" and sel = "\<lambda>_. True"
      and finalize = False]
    analyzeSubqueryAlias_scope [where scope = None
      and N = 2 and a = idAnalyzer and a' = idAnalyzer and schemaLength = "\<lambda>_. 1" and nm = "''x''"
      and cols = "[]" and vis = False and c = "ResolvedTable ''u''" and sel = "\<lambda>_. True"
      and finalize = False]
    analyzeSubqueryAlias_scope [where scope = "Some \<lparr>nodes = [ResolvedTable ''t''], recursionDepth = 4\<rparr>"
      and N = 2 and a = "depthAnalyzer 5" and a' = "depthAnalyzer 5" and schemaLength = "\<lambda>_. 1"
      and nm = "''x''" and cols = "[]" and vis = False and c = "ResolvedTable ''u''" and sel = "\<lambda>_. True"
      and finalize = False and child = "QueryProcess (ResolvedTable ''u'')" and same = NewTree
      and err = "ErrOther ''depth''"]
    analyzeSubqueryAlias_scope [where scope = "Some \<lparr>nodes = [ResolvedTable ''t''], recursionDepth = 4\<rparr>"
      and N = 2 and a = "depthAnalyzer 4" and a' = "depthAnalyzer 4" and schemaLength = "\<lambda>_. 1"
      and nm = "''x''" and cols = "[]" and vis = False and c = "ResolvedTable ''u''" and sel = "\<lambda>_. True"
      and finalize = False and child = "ResolvedTable ''u''" and same = SameTree
      and err = "ErrOther ''depth''"]
    analyzeSubqueryAlias_scope [where scope = None
      and N = 2 and a = "depthAnalyzer 1" and a' = "depthAnalyzer 1" and schemaLength = "\<lambda>_. 1"
      and nm = "''x''" and cols = "[]" and vis = False and c = "ResolvedTable ''u''" and sel = "\<lambda>_. True"
      and finalize = True and child = "QueryProcess (ResolvedTable ''u'')" and same = NewTree
      and err = "ErrOther ''depth''"]
    derivedChain_depth [where t = "ResolvedTable ''u''" and scope = None and k = 1 and sl = "\<lambda>_. 0"
      and sel = "\<lambda>_. True" and fin = False]
  by (simp add: IsEmpty_def InnerToOuter_def RecursionDepth_def subScope_of_def newScopeWithDepth_def
      numeral_2_eq_2 depthAnalyzer_def)

subsection \<open>The column count of a subquery-derived table\<close>

text \<open>
  An error of the analysis of the body is returned as it is, whatever the column
  counts.
\<close>

lemma analyzeSubqueryAlias_error_first:
  assumes "(if finalize then analyzeStartingAtBatch a c (Some (subScope_of scope)) ''default-rules'' sel
            else analyzeThroughBatch a c (Some (subScope_of scope)) ''default-rules'' sel)
             = (child, same, Some e)"
  shows "snd (analyzeSubqueryAlias a schemaLength (SubqueryAlias nm cols vis c) scope sel finalize) = Inl e"
  using assms by (auto simp: analyzeSubqueryAlias_def Let_def split: if_splits)

text \<open>
  Claim C3, as stated, fails: the count is compared only after the body of the derived
  table has been analyzed, and only if that analysis returned no error. Here the
  derived table declares one column and its body, a resolved table, has two, before
  and after the analysis; the analysis of the body fails with another error, and both
  phases return that error, not the column count mismatch.
\<close>

theorem analyzeSubqueryAlias_mismatch_counterexample:
  "snd (analyzeSubqueryAlias (failingAnalyzer (ErrOther ''access denied'')) (\<lambda>_. 2)
          (SubqueryAlias ''x'' [''c''] False (ResolvedTable ''t'')) None (\<lambda>_. True) False)
     = Inl (ErrOther ''access denied'')
   \<and> snd (analyzeSubqueryAlias (failingAnalyzer (ErrOther ''access denied'')) (\<lambda>_. 2)
          (SubqueryAlias ''x'' [''c''] False (ResolvedTable ''t'')) None (\<lambda>_. True) True)
     = Inl (ErrOther ''access denied'')
   \<and> Inl (ErrOther ''access denied'') \<noteq> (Inl ErrColumnCountMismatch :: error + node \<times> TreeIdentity)"
  by (simp add: analyzeSubqueryAlias_def failingAnalyzer_def subScope_of_def Let_def)

text \<open>
  Claim C3, amended. For a derived table that declares column names: whenever the
  analysis of its body returns no error and the analyzed body has a number of columns
  other than the declared one, \<^verbatim>\<open>analyzeSubqueryAlias\<close> fails with the column count
  mismatch, in the tentative and in the finalize phase, and returns no node. The error
  is never deferred: it is outside the deferrable class, so
  \<^verbatim>\<open>analyzeSubqueryExpression\<close> returns it in both phases when the analysis of a
  subquery expression's body ends with it.
\<close>

theorem analyzeSubqueryAlias_mismatch:
  assumes "(if finalize then analyzeStartingAtBatch a c (Some (subScope_of scope)) ''default-rules'' sel
            else analyzeThroughBatch a c (Some (subScope_of scope)) ''default-rules'' sel)
             = (child, same, None)"
      and "length cols > 0" and "schemaLength child \<noteq> length cols"
  shows "snd (analyzeSubqueryAlias a schemaLength (SubqueryAlias nm cols vis c) scope sel finalize)
           = Inl ErrColumnCountMismatch
         \<and> \<not> deferrable ErrColumnCountMismatch
         \<and> (analyzeWithSelector a' (Query sq) (Some (newScope scope' n)) (if fin then sel' else nsel sel')
              = (analyzed, idt, Some ErrColumnCountMismatch)
            \<longrightarrow> analyzeSubqueryExpression a' nsel n sq scope' sel' fin = Inl ErrColumnCountMismatch)"
  using assms
  by (auto simp: analyzeSubqueryAlias_def analyzeSubqueryExpression_def deferrable_def Let_def
      split: if_splits)

theorem analyzeSubqueryAlias_mismatch_witness:
  "snd (analyzeSubqueryAlias idAnalyzer (\<lambda>_. 2) (SubqueryAlias ''x'' [''c''] False (ResolvedTable ''t''))
          None (\<lambda>_. True) False) = Inl ErrColumnCountMismatch
   \<and> snd (analyzeSubqueryAlias idAnalyzer (\<lambda>_. 2) (SubqueryAlias ''x'' [''c''] False (ResolvedTable ''t''))
          None (\<lambda>_. True) True) = Inl ErrColumnCountMismatch
   \<and> analyzeSubqueryExpression (failingAnalyzer ErrColumnCountMismatch) id (ResolvedTable ''u'')
        (Subquery (ResolvedTable ''t'') False) None (\<lambda>_. True) False = Inl ErrColumnCountMismatch"
  using analyzeSubqueryAlias_mismatch [where finalize = False and a = idAnalyzer and c = "ResolvedTable ''t''"
      and scope = None and sel = "\<lambda>_. True" and child = "ResolvedTable ''t''" and same = SameTree
      and cols = "[''c'']" and schemaLength = "\<lambda>_. 2" and nm = "''x''" and vis = False
      and a' = "failingAnalyzer ErrColumnCountMismatch" and sq = "Subquery (ResolvedTable ''t'') False"
      and scope' = None and n = "ResolvedTable ''u''" and fin = False and sel' = "\<lambda>_. True"
      and nsel = id and analyzed = "ResolvedTable ''t''" and idt = SameTree]
    analyzeSubqueryAlias_mismatch [where finalize = True and a = idAnalyzer and c = "ResolvedTable ''t''"
      and scope = None and sel = "\<lambda>_. True" and child = "ResolvedTable ''t''" and same = SameTree
      and cols = "[''c'']" and schemaLength = "\<lambda>_. 2" and nm = "''x''" and vis = False
      and a' = "failingAnalyzer ErrColumnCountMismatch" and sq = "Subquery (ResolvedTable ''t'') False"
      and scope' = None and n = "ResolvedTable ''u''" and fin = False and sel' = "\<lambda>_. True"
      and nsel = id and analyzed = "ResolvedTable ''t''" and idt = SameTree]
  by (simp add: idAnalyzer_def failingAnalyzer_def)

subsection \<open>Flattening of table aliases\<close>

lemma flattenTableAliases_f_eq: "flattenTableAliases_f m = Inr (flatten1 m, \<not> flattenable m)"
  by (cases m) auto

lemma flatten1_same: "\<not> flattenable m \<Longrightarrow> flatten1 m = m"
  by (cases m) auto

lemma flattenTableAliases_plan:
  "flattenTableAliases n = Inr (mapUp flatten1 n, \<not> (\<exists>m\<in>set (subnodes n). flattenable m))"
  unfolding flattenTableAliases_def
  using transform_Node_total [where f = flattenTableAliases_f and g = flatten1
      and s = "\<lambda>m. \<not> flattenable m", OF flattenTableAliases_f_eq, of n]
  by (simp add: flatten1_same list_all_iff)

lemma subnodes_self: "n \<in> set (subnodes n)"
  by (subst subnodes.simps) simp

lemma flatten_none_left: "m \<in> set (subnodes (mapUp flatten1 n)) \<Longrightarrow> \<not> flattenable m"
proof (induction n arbitrary: m rule: subnodes.induct)
  case (1 n)
  note IH = "1.IH"
  show ?case
  proof (cases n)
    case (TableAlias nm c)
    have c: "\<And>x. x \<in> set (subnodes (mapUp flatten1 c)) \<Longrightarrow> \<not> flattenable x"
      using IH [of c] TableAlias by simp
    show ?thesis
    proof (cases "mapUp flatten1 c")
      case (SubqueryAlias nm' cols vis ch)
      then show ?thesis using "1.prems" TableAlias c by auto
    next
      case inner: (TableAlias nm' ch)
      have "\<not> flattenable (TableAlias nm' ch)"
        using c [of "TableAlias nm' ch"] inner subnodes_self [of "mapUp flatten1 c"] by simp
      then show ?thesis using "1.prems" TableAlias c inner by auto
    qed (use "1.prems" TableAlias c in \<open>auto\<close>)
  qed (use "1.prems" IH in \<open>auto\<close>)
qed

text \<open>
  Claim C10. The function that \<^verbatim>\<open>flattenTableAliases\<close> applies rewrites a
  \<^verbatim>\<open>TableAlias\<close> whose child is a \<^verbatim>\<open>SubqueryAlias\<close> or another \<^verbatim>\<open>TableAlias\<close> into
  that child renamed with the outer alias's name and reports \<^verbatim>\<open>NewTree\<close>; it returns
  every other node unchanged with \<^verbatim>\<open>SameTree\<close>. On a whole plan the rule never fails,
  applies this bottom-up to every node, reports \<^verbatim>\<open>SameTree\<close> exactly when the plan
  has no such alias, and leaves no such alias in its result.
\<close>

theorem flattenTableAliases_rewrites:
  "flattenTableAliases_f m = Inr (flatten1 m, \<not> flattenable m)
   \<and> flatten1 (TableAlias nm (SubqueryAlias nm' cols vis c)) = SubqueryAlias nm cols vis c
   \<and> flatten1 (TableAlias nm (TableAlias nm' c)) = TableAlias nm c
   \<and> (\<not> flattenable m \<longrightarrow> flatten1 m = m)
   \<and> (flattenable m \<longleftrightarrow> (\<exists>a c. m = TableAlias a c \<and> (isSubqueryAlias c \<or> isTableAlias c)))
   \<and> flattenTableAliases n = Inr (mapUp flatten1 n, \<not> (\<exists>x\<in>set (subnodes n). flattenable x))
   \<and> (\<forall>x\<in>set (subnodes (mapUp flatten1 n)). \<not> flattenable x)"
proof -
  have a: "flattenable m \<longleftrightarrow> (\<exists>a c. m = TableAlias a c \<and> (isSubqueryAlias c \<or> isTableAlias c))"
    by (cases m) simp_all
  have b: "\<forall>x\<in>set (subnodes (mapUp flatten1 n)). \<not> flattenable x"
    using flatten_none_left by blast
  show ?thesis
    using a b by (simp add: flattenTableAliases_f_eq flatten1_same flattenTableAliases_plan)
qed

theorem flattenTableAliases_rewrites_witness:
  "flattenTableAliases (Project [] (TableAlias ''a'' (TableAlias ''b''
       (SubqueryAlias ''s'' [] False (ResolvedTable ''t'')))))
     = Inr (Project [] (SubqueryAlias ''a'' [] False (ResolvedTable ''t'')), NewTree)
   \<and> flattenTableAliases (Project [] (TableAlias ''a'' (ResolvedTable ''t'')))
     = Inr (Project [] (TableAlias ''a'' (ResolvedTable ''t'')), SameTree)"
  using flattenTableAliases_rewrites [where n = "Project [] (TableAlias ''a'' (TableAlias ''b''
       (SubqueryAlias ''s'' [] False (ResolvedTable ''t''))))" and m = "ResolvedTable ''t''"
       and nm = "''a''" and nm' = "''b''" and cols = "[]" and vis = False and c = "ResolvedTable ''t''"]
    flattenTableAliases_rewrites [where n = "Project [] (TableAlias ''a'' (ResolvedTable ''t''))"
       and m = "ResolvedTable ''t''"
       and nm = "''a''" and nm' = "''b''" and cols = "[]" and vis = False and c = "ResolvedTable ''t''"]
  by simp

subsection \<open>Join scope length\<close>

lemma setJoinScopeLen_f_eq: "setJoinScopeLen_f k m = Inr (annotateJoin k m, \<not> isJoinNode m)"
  by (cases m) (auto simp: setJoinScopeLen_f_def NewStripRowNode_def Let_def)

lemma annotateJoin_same: "\<not> isJoinNode m \<Longrightarrow> annotateJoin k m = m"
  by (cases m) auto

lemma setJoinScopeLen_plan:
  "length (Schema scope) \<noteq> 0 \<Longrightarrow>
   setJoinScopeLen Schema n scope
     = Inr (mapUp (annotateJoin (length (Schema scope))) n, \<not> (\<exists>m\<in>set (subnodes n). isJoinNode m))"
  unfolding setJoinScopeLen_def Let_def
  using transform_Node_total [where f = "setJoinScopeLen_f (length (Schema scope))"
      and g = "annotateJoin (length (Schema scope))"
      and s = "\<lambda>m. \<not> isJoinNode m", OF setJoinScopeLen_f_eq, of n]
  by (simp add: annotateJoin_same list_all_iff)

lemma annotated_joins:
  "m \<in> set (subnodes (mapUp (annotateJoin k) n)) \<Longrightarrow> isJoinNode m
    \<Longrightarrow> ScopeLen m = k \<and> isStripRowNode (Left m)"
proof (induction n arbitrary: m rule: subnodes.induct)
  case (1 n)
  note IH = "1.IH"
  show ?case
  proof (cases n)
    case (JoinNode t k0 e l r)
    have l: "\<And>x. x \<in> set (subnodes (mapUp (annotateJoin k) l)) \<Longrightarrow> isJoinNode x
               \<Longrightarrow> ScopeLen x = k \<and> isStripRowNode (Left x)"
      using IH [of l] JoinNode by simp
    have r: "\<And>x. x \<in> set (subnodes (mapUp (annotateJoin k) r)) \<Longrightarrow> isJoinNode x
               \<Longrightarrow> ScopeLen x = k \<and> isStripRowNode (Left x)"
      using IH [of r] JoinNode by simp
    show ?thesis
      using "1.prems" JoinNode l r by (auto split: if_splits)
  qed (use "1.prems" IH in \<open>auto\<close>)
qed

lemma isStripRowNode_annotateJoin [simp]: "isStripRowNode (annotateJoin k n) = isStripRowNode n"
  by (cases n) simp_all

lemma isStripRowNode_mapUp_annotateJoin:
  "isStripRowNode (mapUp (annotateJoin k) n) = isStripRowNode n"
  by (cases n) simp_all

lemma stripPaired_child: "stripPaired n \<Longrightarrow> c \<in> set (Children n) \<Longrightarrow> stripPaired c"
  unfolding stripPaired_def by (subst (asm) subnodes.simps) auto

lemma stripPaired_self:
  "stripPaired n \<Longrightarrow> isJoinNode n \<Longrightarrow> isStripRowNode (Left n) \<Longrightarrow> isStripRowNode (Right n)"
  unfolding stripPaired_def using subnodes_self [of n] by blast

lemma annotated_joins_both:
  "stripPaired n \<Longrightarrow> m \<in> set (subnodes (mapUp (annotateJoin k) n)) \<Longrightarrow> isJoinNode m
    \<Longrightarrow> isStripRowNode (Left m) \<and> isStripRowNode (Right m)"
proof (induction n arbitrary: m rule: subnodes.induct)
  case (1 n)
  note IH = "1.IH" and sp = stripPaired_child [OF "1.prems"(1)]
  show ?case
  proof (cases n)
    case (JoinNode t k0 e l r)
    have l: "\<And>x. x \<in> set (subnodes (mapUp (annotateJoin k) l)) \<Longrightarrow> isJoinNode x
               \<Longrightarrow> isStripRowNode (Left x) \<and> isStripRowNode (Right x)"
      using IH [of l] sp [of l] JoinNode by simp
    have r: "\<And>x. x \<in> set (subnodes (mapUp (annotateJoin k) r)) \<Longrightarrow> isJoinNode x
               \<Longrightarrow> isStripRowNode (Left x) \<and> isStripRowNode (Right x)"
      using IH [of r] sp [of r] JoinNode by simp
    have self: "isStripRowNode l \<Longrightarrow> isStripRowNode r"
      using stripPaired_self [OF "1.prems"(1)] JoinNode by simp
    show ?thesis
      using "1.prems"(2,3) JoinNode l r self
      by (auto simp: isStripRowNode_mapUp_annotateJoin split: if_splits)
  qed (use "1.prems"(2,3) IH sp in \<open>auto\<close>)
qed

text \<open>
  Claim C7, as stated, fails: strip nodes are not put around both children of a join
  unless already present. The source tests the left child only. When the left child
  is a strip node and the right child is not, neither is wrapped and the right child
  stays bare; when the right child alone is a strip node, both are wrapped and the
  right child ends up below two strip nodes.
\<close>

theorem setJoinScopeLen_annotates_counterexample:
  "setJoinScopeLen (\<lambda>_. [''a'', ''b''])
      (JoinNode JoinTypeInner 0 (Literal ''on'') (StripRowNode (ResolvedTable ''t'') 2) (ResolvedTable ''u''))
      (Some \<lparr>nodes = [ResolvedTable ''o''], recursionDepth = 1\<rparr>)
     = Inr (JoinNode JoinTypeInner 2 (Literal ''on'') (StripRowNode (ResolvedTable ''t'') 2) (ResolvedTable ''u''),
            NewTree)
   \<and> \<not> isStripRowNode (ResolvedTable ''u'')
   \<and> setJoinScopeLen (\<lambda>_. [''a'', ''b''])
      (JoinNode JoinTypeInner 0 (Literal ''on'') (ResolvedTable ''t'') (StripRowNode (ResolvedTable ''u'') 2))
      (Some \<lparr>nodes = [ResolvedTable ''o''], recursionDepth = 1\<rparr>)
     = Inr (JoinNode JoinTypeInner 2 (Literal ''on'') (StripRowNode (ResolvedTable ''t'') 2)
              (StripRowNode (StripRowNode (ResolvedTable ''u'') 2) 2), NewTree)"
  by (simp add: setJoinScopeLen_plan)

text \<open>
  Claim C7, amended. When the schema of the enclosing scope is empty,
  \<^verbatim>\<open>setJoinScopeLen\<close> returns the tree unchanged with \<^verbatim>\<open>SameTree\<close>. Otherwise it never
  fails and rewrites every join node of the tree bottom-up: the join is annotated with
  the scope's column count, and both children are wrapped in strip nodes unless the
  left child is a strip node already, in which case neither child is wrapped. So every
  join of the result carries the count and has a strip node as its left child; in a
  tree where no join has a strip node as its left child only, every join of the result
  has a strip node as its right child too; and \<^verbatim>\<open>NewTree\<close> is reported exactly when
  the tree has a join.
\<close>

theorem setJoinScopeLen_annotates:
  "(length (Schema scope) = 0 \<longrightarrow> setJoinScopeLen Schema n scope = Inr (n, SameTree))
   \<and> (length (Schema scope) \<noteq> 0 \<longrightarrow>
        setJoinScopeLen Schema n scope
          = Inr (mapUp (annotateJoin (length (Schema scope))) n, \<not> (\<exists>x\<in>set (subnodes n). isJoinNode x))
        \<and> (\<forall>x\<in>set (subnodes (mapUp (annotateJoin (length (Schema scope))) n)).
              isJoinNode x \<longrightarrow> ScopeLen x = length (Schema scope) \<and> isStripRowNode (Left x))
        \<and> (stripPaired n \<longrightarrow>
              (\<forall>x\<in>set (subnodes (mapUp (annotateJoin (length (Schema scope))) n)).
                  isJoinNode x \<longrightarrow> isStripRowNode (Right x))))
   \<and> annotateJoin k (JoinNode t k0 e l r)
        = (if isStripRowNode l then JoinNode t k e l r
           else JoinNode t k e (StripRowNode l k) (StripRowNode r k))
   \<and> (\<not> isJoinNode m \<longrightarrow> annotateJoin k m = m)"
proof -
  have a: "length (Schema scope) = 0 \<longrightarrow> setJoinScopeLen Schema n scope = Inr (n, SameTree)"
    by (simp add: setJoinScopeLen_def)
  have b: "\<forall>x\<in>set (subnodes (mapUp (annotateJoin (length (Schema scope))) n)).
              isJoinNode x \<longrightarrow> ScopeLen x = length (Schema scope) \<and> isStripRowNode (Left x)"
    using annotated_joins by blast
  have b2: "stripPaired n \<longrightarrow>
              (\<forall>x\<in>set (subnodes (mapUp (annotateJoin (length (Schema scope))) n)).
                  isJoinNode x \<longrightarrow> isStripRowNode (Right x))"
    using annotated_joins_both by blast
  have c: "\<not> isJoinNode m \<longrightarrow> annotateJoin k m = m"
    by (simp add: annotateJoin_same)
  have d: "annotateJoin k (JoinNode t k0 e l r)
        = (if isStripRowNode l then JoinNode t k e l r
           else JoinNode t k e (StripRowNode l k) (StripRowNode r k))"
    by simp
  have p: "length (Schema scope) \<noteq> 0 \<longrightarrow>
        setJoinScopeLen Schema n scope
          = Inr (mapUp (annotateJoin (length (Schema scope))) n, \<not> (\<exists>x\<in>set (subnodes n). isJoinNode x))"
    using setJoinScopeLen_plan [of Schema scope n] by blast
  from a b b2 c d p show ?thesis
    by blast
qed

theorem setJoinScopeLen_annotates_witness:
  "setJoinScopeLen (\<lambda>_. [''a'', ''b''])
      (Filter (Literal ''c'') (JoinNode JoinTypeInner 0 (Literal ''on'') (ResolvedTable ''t'') (ResolvedTable ''u'')))
      (Some \<lparr>nodes = [ResolvedTable ''o''], recursionDepth = 1\<rparr>)
     = Inr (Filter (Literal ''c'') (JoinNode JoinTypeInner 2 (Literal ''on'')
              (StripRowNode (ResolvedTable ''t'') 2) (StripRowNode (ResolvedTable ''u'') 2)), NewTree)
   \<and> setJoinScopeLen (\<lambda>_. [])
      (Filter (Literal ''c'') (JoinNode JoinTypeInner 0 (Literal ''on'') (ResolvedTable ''t'') (ResolvedTable ''u'')))
      None
     = Inr (Filter (Literal ''c'') (JoinNode JoinTypeInner 0 (Literal ''on'') (ResolvedTable ''t'') (ResolvedTable ''u'')),
            SameTree)
   \<and> setJoinScopeLen (\<lambda>_. [''a'', ''b''])
      (JoinNode JoinTypeInner 0 (Literal ''on'')
         (StripRowNode (ResolvedTable ''t'') 1) (StripRowNode (ResolvedTable ''u'') 1))
      (Some \<lparr>nodes = [ResolvedTable ''o''], recursionDepth = 1\<rparr>)
     = Inr (JoinNode JoinTypeInner 2 (Literal ''on'')
              (StripRowNode (ResolvedTable ''t'') 1) (StripRowNode (ResolvedTable ''u'') 1), NewTree)
   \<and> stripPaired (Filter (Literal ''c'')
        (JoinNode JoinTypeInner 0 (Literal ''on'') (ResolvedTable ''t'') (ResolvedTable ''u'')))
   \<and> list_all (\<lambda>x. isJoinNode x \<longrightarrow> isStripRowNode (Left x) \<and> isStripRowNode (Right x))
        (subnodes (Filter (Literal ''c'') (JoinNode JoinTypeInner 2 (Literal ''on'')
              (StripRowNode (ResolvedTable ''t'') 2) (StripRowNode (ResolvedTable ''u'') 2))))"
proof -
  let ?n = "Filter (Literal ''c'') (JoinNode JoinTypeInner 0 (Literal ''on'') (ResolvedTable ''t'') (ResolvedTable ''u''))"
  let ?p = "JoinNode JoinTypeInner 0 (Literal ''on'')
         (StripRowNode (ResolvedTable ''t'') 1) (StripRowNode (ResolvedTable ''u'') 1)"
  let ?s = "Some \<lparr>nodes = [ResolvedTable ''o''], recursionDepth = 1\<rparr>"
  have sp: "stripPaired ?n"
    by (simp add: stripPaired_def)
  have ne: "length ((\<lambda>_. [''a'', ''b'']) ?s) \<noteq> 0" "length ((\<lambda>_. []) (None :: Scope option)) = 0"
    by simp_all
  note one = setJoinScopeLen_annotates [where Schema = "\<lambda>_. [''a'', ''b'']" and scope = ?s and n = ?n
      and k = 2 and t = JoinTypeInner and ?k0.0 = 0 and e = "Literal ''on''" and l = "ResolvedTable ''t''"
      and r = "ResolvedTable ''u''" and m = "ResolvedTable ''t''"]
  note two = setJoinScopeLen_annotates [where Schema = "\<lambda>_. []" and scope = None and n = ?n
      and k = 2 and t = JoinTypeInner and ?k0.0 = 0 and e = "Literal ''on''" and l = "ResolvedTable ''t''"
      and r = "ResolvedTable ''u''" and m = "ResolvedTable ''t''"]
  note three = setJoinScopeLen_annotates [where Schema = "\<lambda>_. [''a'', ''b'']" and scope = ?s and n = ?p
      and k = 2 and t = JoinTypeInner and ?k0.0 = 0 and e = "Literal ''on''" and l = "ResolvedTable ''t''"
      and r = "ResolvedTable ''u''" and m = "ResolvedTable ''t''"]
  have r1: "setJoinScopeLen (\<lambda>_. [''a'', ''b'']) ?n ?s
     = Inr (Filter (Literal ''c'') (JoinNode JoinTypeInner 2 (Literal ''on'')
              (StripRowNode (ResolvedTable ''t'') 2) (StripRowNode (ResolvedTable ''u'') 2)), NewTree)"
    using one by simp
  have r2: "setJoinScopeLen (\<lambda>_. []) ?n None = Inr (?n, SameTree)"
    using two by simp
  have r3: "setJoinScopeLen (\<lambda>_. [''a'', ''b'']) ?p ?s
     = Inr (JoinNode JoinTypeInner 2 (Literal ''on'')
              (StripRowNode (ResolvedTable ''t'') 1) (StripRowNode (ResolvedTable ''u'') 1), NewTree)"
    using three by simp
  have r4: "list_all (\<lambda>x. isJoinNode x \<longrightarrow> isStripRowNode (Left x) \<and> isStripRowNode (Right x))
        (subnodes (Filter (Literal ''c'') (JoinNode JoinTypeInner 2 (Literal ''on'')
              (StripRowNode (ResolvedTable ''t'') 2) (StripRowNode (ResolvedTable ''u'') 2))))"
    using one sp by simp
  show ?thesis
    using r1 r2 r3 r4 sp by simp
qed

subsection \<open>Context-aware transformations with a function that never fails\<close>

lemma WithChildren_mapIdx:
  "WithChildren n (map (\<lambda>(i, x). h i x) (enumerate 0 (Children n))) = Inr (mapChildrenIdx h n)"
  by (cases n) simp_all

lemma mapChildrenIdx_id:
  "(\<And>i c. (i, c) \<in> set (enumerate 0 (Children n)) \<Longrightarrow> h i c = c) \<Longrightarrow> mapChildrenIdx h n = n"
proof (cases n)
  case (TriggerBeginEndBlock cs)
  assume h: "\<And>i c. (i, c) \<in> set (enumerate 0 (Children n)) \<Longrightarrow> h i c = c"
  have "map (\<lambda>(i, c). h i c) (enumerate 0 cs) = map snd (enumerate 0 cs)"
    by (rule map_cong) (use h TriggerBeginEndBlock in auto)
  then show ?thesis using TriggerBeginEndBlock by simp
qed auto

lemma ctxUp_same:
  assumes same: "\<And>c. t c \<Longrightarrow> g c = Node c"
  shows "ctxSame s t c \<Longrightarrow> ctxUp s g c = Node c"
proof (induction "size (Node c)" arbitrary: c rule: less_induct)
  case less
  have tc: "t c"
    and ch: "\<And>i child. (i, child) \<in> set (enumerate 0 (Children (Node c)))
               \<Longrightarrow> selected s (childCtx (Node c) i child) \<Longrightarrow> ctxSame s t (childCtx (Node c) i child)"
    using less.prems by (subst (asm) ctxSame.simps, auto simp: list_all_iff)+
  have "mapChildrenIdx (\<lambda>i child. if selected s (childCtx (Node c) i child)
                                 then ctxUp s g (childCtx (Node c) i child) else child) (Node c) = Node c"
  proof (rule mapChildrenIdx_id)
    fix i child assume m: "(i, child) \<in> set (enumerate 0 (Children (Node c)))"
    show "(if selected s (childCtx (Node c) i child)
           then ctxUp s g (childCtx (Node c) i child) else child) = child"
      using less.hyps [of "childCtx (Node c) i child"] ch [OF m] size_Children [of child "Node c"] m
      by (auto simp: childCtx_def dest: in_set_enumerate_snd)
  qed
  then show ?case
    by (subst ctxUp.simps) (simp add: same tc)
qed

lemma nodeWithCtxHelper_total:
  assumes f: "\<And>c. f c = Inr (g c, t c)" and same: "\<And>c. t c \<Longrightarrow> g c = Node c"
  shows "nodeWithCtxHelper c s f = Inr (ctxUp s g c, ctxSame s t c)"
proof (induction "size (Node c)" arbitrary: c rule: less_induct)
  case less
  let ?h = "\<lambda>i child. if selected s (childCtx (Node c) i child)
                        then ctxUp s g (childCtx (Node c) i child) else child"
  let ?t = "\<lambda>i child. selected s (childCtx (Node c) i child) \<longrightarrow> ctxSame s t (childCtx (Node c) i child)"
  show ?case
  proof (cases "Children (Node c) = []")
    case True
    have "mapChildrenIdx ?h (Node c) = Node c"
      by (rule mapChildrenIdx_id) (simp add: True)
    then show ?thesis
      using True
      by (subst nodeWithCtxHelper.simps, subst ctxUp.simps, subst ctxSame.simps) (simp add: f)
  next
    case False
    have re: "rewriteEach
                 (\<lambda>i child.
                    if (case s of None \<Rightarrow> True
                        | Some sel \<Rightarrow> sel \<lparr>Node = child, Parent = Some (Node c), ChildNum = int i\<rparr>)
                    then nodeWithCtxHelper \<lparr>Node = child, Parent = Some (Node c), ChildNum = int i\<rparr> s f
                    else Inr (child, SameTree))
                 0 (Children (Node c))
            = Inr (map (\<lambda>(k, x). ?h k x) (enumerate 0 (Children (Node c))),
                   list_all (\<lambda>(k, x). ?t k x) (enumerate 0 (Children (Node c))))"
    proof (rule rewriteEach_total)
      fix k x assume m: "(k, x) \<in> set (enumerate 0 (Children (Node c)))"
      show "(if (case s of None \<Rightarrow> True
                        | Some sel \<Rightarrow> sel \<lparr>Node = x, Parent = Some (Node c), ChildNum = int k\<rparr>)
             then nodeWithCtxHelper \<lparr>Node = x, Parent = Some (Node c), ChildNum = int k\<rparr> s f
             else Inr (x, SameTree)) = Inr (?h k x, ?t k x)"
        using less.hyps [of "childCtx (Node c) k x"] size_Children [of x "Node c"] m
        by (auto simp: selected_def childCtx_def split: option.splits dest: in_set_enumerate_snd)
      show "?t k x \<Longrightarrow> ?h k x = x"
        using ctxUp_same [where t = t and g = g and s = s and c = "childCtx (Node c) k x", OF same] by (auto simp: childCtx_def)
    qed
    show ?thesis
    proof (cases "list_all (\<lambda>(k, x). ?t k x) (enumerate 0 (Children (Node c)))")
      case True
      have "mapChildrenIdx ?h (Node c) = Node c"
      proof (rule mapChildrenIdx_id)
        fix i child assume m: "(i, child) \<in> set (enumerate 0 (Children (Node c)))"
        then have "?t i child" using True by (auto simp: list_all_iff)
        then show "?h i child = child"
          using ctxUp_same [where t = t and g = g and s = s and c = "childCtx (Node c) i child", OF same] by (auto simp: childCtx_def)
      qed
      then show ?thesis
        using False True
        by (subst nodeWithCtxHelper.simps, subst ctxUp.simps, subst ctxSame.simps)
           (simp add: re f)
    next
      case nsame: False
      show ?thesis
        using False nsame
        by (subst nodeWithCtxHelper.simps, subst ctxUp.simps, subst ctxSame.simps)
           (simp add: re f WithChildren_mapIdx)
    qed
  qed
qed

subsection \<open>Caching of subquery-derived tables in joins\<close>

lemma in_set_enumerate_ex: "c \<in> set cs \<Longrightarrow> \<exists>i. (i, c) \<in> set (enumerate k cs)"
proof -
  assume "c \<in> set cs"
  then obtain j where "j < length cs" "cs ! j = c"
    by (auto simp: in_set_conv_nth)
  then have "(j + k, c) \<in> set (enumerate k cs)"
    by (simp add: in_set_enumerate_eq)
  then show ?thesis ..
qed

lemma map_enumerate_const: "map (\<lambda>(i, c). h c) (enumerate k cs) = map h cs"
  by (induction cs arbitrary: k) simp_all

lemma mapChildrenIdx_const: "mapChildrenIdx (\<lambda>i. h) n = mapChildren h n"
  by (cases n) (simp_all add: map_enumerate_const)

lemma isSubqueryAlias_wrapJoinedAliases [simp]:
  "isSubqueryAlias (wrapJoinedAliases n) = isSubqueryAlias n"
  by (cases n; subst wrapJoinedAliases.simps; simp)

lemma wrapAlias_eq: "wrapAlias x = (if isSubqueryAlias x then CachedResults x else x)"
  by (cases x) simp_all

lemma parentIs_childCtx [simp]: "parentIs P (childCtx n i child) = P n"
  by (simp add: parentIs_def childCtx_def)

lemma Node_childCtx [simp]: "Node (childCtx n i child) = child"
  by (simp add: childCtx_def)

lemma ChildNum_childCtx [simp]: "ChildNum (childCtx n i child) = int i"
  by (simp add: childCtx_def)

lemma selected_None [simp]: "selected None c"
  by (simp add: selected_def)

lemma selected_selector [simp]:
  "selected (Some cacheSubqueryAlisesInJoins_selector) (childCtx n i child) = primaryChild n i"
  by (simp add: selected_def cacheSubqueryAlisesInJoins_selector_def primaryChild_def)

lemma wrap_total: "cacheSubqueryAlisesInJoins_wrap c = Inr (wrapOf c, wrapSame c)"
  by (simp add: cacheSubqueryAlisesInJoins_wrap_def wrapOf_def wrapSame_def NewCachedResults_def Let_def)

lemma wrapSame_wrapOf: "wrapSame c \<Longrightarrow> wrapOf c = Node c"
  by (auto simp: wrapOf_def wrapSame_def)

lemma unwrap_total:
  "cacheSubqueryAlisesInJoins_unwrap c = Inr (unwrapCache (Node c), \<not> isCachedResults (Node c))"
  by (cases "Node c") (simp_all add: cacheSubqueryAlisesInJoins_unwrap_def)

lemma unwrapCache_same: "\<not> isCachedResults n \<Longrightarrow> unwrapCache n = n"
  by (cases n) simp_all

lemma ctxUp_wrap:
  "ctxUp None wrapOf c
     = (if (parentIs isJoinNode c \<or> parentIs isIndexedJoin c) then wrapAlias (wrapJoinedAliases (Node c))
        else wrapJoinedAliases (Node c))"
proof (induction "size (Node c)" arbitrary: c rule: less_induct)
  case less
  let ?n = "Node c"
  have kids: "mapChildrenIdx (\<lambda>i child. if selected None (childCtx ?n i child)
                                 then ctxUp None wrapOf (childCtx ?n i child) else child) ?n
              = mapChildrenIdx (\<lambda>i child. if isJoin ?n then wrapAlias (wrapJoinedAliases child)
                                            else wrapJoinedAliases child) ?n"
  proof (rule mapChildrenIdx_cong [OF refl])
    fix i child assume "child \<in> set (Children ?n)"
    then have "size (Node (childCtx ?n i child)) < size ?n"
      by (simp add: size_Children)
    from less.hyps [OF this]
    show "(if selected None (childCtx ?n i child)
           then ctxUp None wrapOf (childCtx ?n i child) else child)
          = (if isJoin ?n then wrapAlias (wrapJoinedAliases child) else wrapJoinedAliases child)"
      by (simp add: isJoin_def)
  qed
  have "ctxUp None wrapOf c = wrapOf (c\<lparr>Node := wrapJoinedAliases ?n\<rparr>)"
    by (subst ctxUp.simps, subst kids, subst mapChildrenIdx_const, subst (2) wrapJoinedAliases.simps) simp
  then show ?case
    by (simp add: wrapOf_def wrapAlias_eq parentIs_def)
qed

lemma ctxUp_unwrap:
  "ctxUp (Some cacheSubqueryAlisesInJoins_selector) (\<lambda>c. unwrapCache (Node c)) c
     = removePrimaryCache (Node c)"
proof (induction "size (Node c)" arbitrary: c rule: less_induct)
  case less
  let ?n = "Node c"
  have kids: "mapChildrenIdx (\<lambda>i child. if selected (Some cacheSubqueryAlisesInJoins_selector) (childCtx ?n i child)
                                 then ctxUp (Some cacheSubqueryAlisesInJoins_selector) (\<lambda>c. unwrapCache (Node c))
                                        (childCtx ?n i child) else child) ?n
              = mapChildrenIdx (\<lambda>i child. if primaryChild ?n i then removePrimaryCache child else child) ?n"
  proof (rule mapChildrenIdx_cong [OF refl])
    fix i child assume "child \<in> set (Children ?n)"
    then have "size (Node (childCtx ?n i child)) < size ?n"
      by (simp add: size_Children)
    from less.hyps [OF this]
    show "(if selected (Some cacheSubqueryAlisesInJoins_selector) (childCtx ?n i child)
           then ctxUp (Some cacheSubqueryAlisesInJoins_selector) (\<lambda>c. unwrapCache (Node c)) (childCtx ?n i child)
           else child)
          = (if primaryChild ?n i then removePrimaryCache child else child)"
      by simp
  qed
  show ?case
    by (subst ctxUp.simps, subst kids, subst (2) removePrimaryCache.simps) simp
qed

lemma hasJoinedAlias_unfold:
  "hasJoinedAlias n \<longleftrightarrow>
     (isJoin n \<and> (\<exists>c\<in>set (Children n). isSubqueryAlias c)) \<or> (\<exists>c\<in>set (Children n). hasJoinedAlias c)"
  unfolding hasJoinedAlias_def by (subst subnodes.simps) auto

lemma hasPrimaryCache_unfold:
  "hasPrimaryCache n \<longleftrightarrow>
     isCachedResults n \<or> (\<exists>(i, c)\<in>set (enumerate 0 (Children n)). primaryChild n i \<and> hasPrimaryCache c)"
  unfolding hasPrimaryCache_def by (subst primaryNodes.simps) (auto split: if_splits)

lemma ctxSame_wrap:
  "ctxSame None wrapSame c \<longleftrightarrow> wrapSame c \<and> \<not> hasJoinedAlias (Node c)"
proof (induction "size (Node c)" arbitrary: c rule: less_induct)
  case less
  let ?n = "Node c"
  have kid: "ctxSame None wrapSame (childCtx ?n i child)
              \<longleftrightarrow> \<not> (isJoin ?n \<and> isSubqueryAlias child) \<and> \<not> hasJoinedAlias child"
    if "child \<in> set (Children ?n)" for i child
  proof -
    have "size (Node (childCtx ?n i child)) < size ?n"
      using that by (simp add: size_Children)
    from less.hyps [OF this] show ?thesis
      by (simp add: wrapSame_def isJoin_def)
  qed
  have "list_all (\<lambda>(i, child). selected None (childCtx ?n i child) \<longrightarrow> ctxSame None wrapSame (childCtx ?n i child))
          (enumerate 0 (Children ?n))
        \<longleftrightarrow> (\<forall>child\<in>set (Children ?n). \<not> (isJoin ?n \<and> isSubqueryAlias child) \<and> \<not> hasJoinedAlias child)"
    (is "?L \<longleftrightarrow> ?R")
  proof
    assume ?L
    show ?R
    proof
      fix child assume ch: "child \<in> set (Children ?n)"
      from in_set_enumerate_ex [OF ch, of 0]
      obtain i where "(i, child) \<in> set (enumerate 0 (Children ?n))" ..
      with \<open>?L\<close> have "ctxSame None wrapSame (childCtx ?n i child)"
        by (auto simp: list_all_iff)
      then show "\<not> (isJoin ?n \<and> isSubqueryAlias child) \<and> \<not> hasJoinedAlias child"
        using kid [OF ch] by simp
    qed
  next
    assume ?R
    then show ?L
      by (auto simp: list_all_iff kid dest!: in_set_enumerate_snd)
  qed
  then show ?case
    by (subst ctxSame.simps, subst hasJoinedAlias_unfold) auto
qed

lemma ctxSame_unwrap:
  "ctxSame (Some cacheSubqueryAlisesInJoins_selector) (\<lambda>c. \<not> isCachedResults (Node c)) c
     \<longleftrightarrow> \<not> hasPrimaryCache (Node c)"
proof (induction "size (Node c)" arbitrary: c rule: less_induct)
  case less
  let ?n = "Node c"
  have kid: "ctxSame (Some cacheSubqueryAlisesInJoins_selector) (\<lambda>c. \<not> isCachedResults (Node c)) (childCtx ?n i child)
              \<longleftrightarrow> \<not> hasPrimaryCache child"
    if "(i, child) \<in> set (enumerate 0 (Children ?n))" for i child
  proof -
    have "size (Node (childCtx ?n i child)) < size ?n"
      using that by (simp add: size_Children in_set_enumerate_snd)
    from less.hyps [OF this] show ?thesis by simp
  qed
  have "list_all (\<lambda>(i, child). selected (Some cacheSubqueryAlisesInJoins_selector) (childCtx ?n i child)
                    \<longrightarrow> ctxSame (Some cacheSubqueryAlisesInJoins_selector) (\<lambda>c. \<not> isCachedResults (Node c))
                          (childCtx ?n i child))
          (enumerate 0 (Children ?n))
        \<longleftrightarrow> \<not> (\<exists>(i, c)\<in>set (enumerate 0 (Children ?n)). primaryChild ?n i \<and> hasPrimaryCache c)"
    by (auto simp: list_all_iff kid)
  then show ?case
    by (subst ctxSame.simps, subst hasPrimaryCache_unfold) simp
qed

lemma cacheSubqueryAlisesInJoins_eq:
  "cacheSubqueryAlisesInJoins n scope
     = Inr (if IsEmpty scope then removePrimaryCache (wrapJoinedAliases n) else wrapJoinedAliases n,
            \<not> hasJoinedAlias n \<and> (IsEmpty scope \<longrightarrow> \<not> hasPrimaryCache (wrapJoinedAliases n)))"
proof -
  have p1: "transform_NodeWithCtx n None cacheSubqueryAlisesInJoins_wrap
              = Inr (wrapJoinedAliases n, \<not> hasJoinedAlias n)"
    unfolding transform_NodeWithCtx_def
    by (subst nodeWithCtxHelper_total [where g = wrapOf and t = wrapSame, OF wrap_total wrapSame_wrapOf])
       (simp_all add: ctxUp_wrap ctxSame_wrap parentIs_def wrapSame_def)
  have p2: "transform_NodeWithCtx m (Some cacheSubqueryAlisesInJoins_selector) cacheSubqueryAlisesInJoins_unwrap
              = Inr (removePrimaryCache m, \<not> hasPrimaryCache m)" for m
    unfolding transform_NodeWithCtx_def
    by (subst nodeWithCtxHelper_total [where g = "\<lambda>c. unwrapCache (Node c)"
          and t = "\<lambda>c. \<not> isCachedResults (Node c)", OF unwrap_total unwrapCache_same])
       (simp_all add: ctxUp_unwrap ctxSame_unwrap)
  show ?thesis
    by (simp add: cacheSubqueryAlisesInJoins_def p1 p2)
qed

lemma wrapJoinedAliases_ctor [simp]:
  "wrapJoinedAliases (ResolvedTable tb) = ResolvedTable tb"
  "wrapJoinedAliases (UnresolvedTable tb) = UnresolvedTable tb"
  "wrapJoinedAliases (ShowVariables fl) = ShowVariables fl"
  "wrapJoinedAliases (Project es c) = Project es (wrapJoinedAliases c)"
  "wrapJoinedAliases (Filter e c) = Filter e (wrapJoinedAliases c)"
  "wrapJoinedAliases (SubqueryAlias nm cols vis c) = SubqueryAlias nm cols vis (wrapJoinedAliases c)"
  "wrapJoinedAliases (TableAlias nm c) = TableAlias nm (wrapJoinedAliases c)"
  "wrapJoinedAliases (QueryProcess c) = QueryProcess (wrapJoinedAliases c)"
  "wrapJoinedAliases (StartTransaction c) = StartTransaction (wrapJoinedAliases c)"
  "wrapJoinedAliases (TransactionCommittingNode c) = TransactionCommittingNode (wrapJoinedAliases c)"
  "wrapJoinedAliases (TriggerBeginEndBlock cs) = TriggerBeginEndBlock (map wrapJoinedAliases cs)"
  "wrapJoinedAliases (JoinNode t k e l r)
     = JoinNode t k e (wrapAlias (wrapJoinedAliases l)) (wrapAlias (wrapJoinedAliases r))"
  "wrapJoinedAliases (IndexedJoin t k e l r)
     = IndexedJoin t k e (wrapAlias (wrapJoinedAliases l)) (wrapAlias (wrapJoinedAliases r))"
  "wrapJoinedAliases (CachedResults c) = CachedResults (wrapJoinedAliases c)"
  "wrapJoinedAliases (StripRowNode c k) = StripRowNode (wrapJoinedAliases c) k"
  by (subst wrapJoinedAliases.simps, simp add: isJoin_def)+

lemma removePrimaryCache_ctor [simp]:
  "removePrimaryCache (ResolvedTable tb) = ResolvedTable tb"
  "removePrimaryCache (UnresolvedTable tb) = UnresolvedTable tb"
  "removePrimaryCache (ShowVariables fl) = ShowVariables fl"
  "removePrimaryCache (Project es c) = Project es (removePrimaryCache c)"
  "removePrimaryCache (Filter e c) = Filter e (removePrimaryCache c)"
  "removePrimaryCache (SubqueryAlias nm cols vis c) = SubqueryAlias nm cols vis (removePrimaryCache c)"
  "removePrimaryCache (TableAlias nm c) = TableAlias nm (removePrimaryCache c)"
  "removePrimaryCache (QueryProcess c) = QueryProcess (removePrimaryCache c)"
  "removePrimaryCache (StartTransaction c) = StartTransaction (removePrimaryCache c)"
  "removePrimaryCache (TransactionCommittingNode c) = TransactionCommittingNode (removePrimaryCache c)"
  "removePrimaryCache (TriggerBeginEndBlock cs) = TriggerBeginEndBlock (map removePrimaryCache cs)"
  "removePrimaryCache (JoinNode t k e l r)
     = (if t = JoinTypeRight then JoinNode t k e l (removePrimaryCache r)
        else JoinNode t k e (removePrimaryCache l) r)"
  "removePrimaryCache (IndexedJoin t k e l r) = IndexedJoin t k e (removePrimaryCache l) r"
  "removePrimaryCache (CachedResults c) = removePrimaryCache c"
  "removePrimaryCache (StripRowNode c k) = StripRowNode (removePrimaryCache c) k"
  by (subst removePrimaryCache.simps, simp add: primaryChild_def map_enumerate_const)+

lemma primaryNodes_ctor [simp]:
  "primaryNodes (ResolvedTable tb) = [ResolvedTable tb]"
  "primaryNodes (UnresolvedTable tb) = [UnresolvedTable tb]"
  "primaryNodes (ShowVariables fl) = [ShowVariables fl]"
  "primaryNodes (Project es c) = Project es c # primaryNodes c"
  "primaryNodes (Filter e c) = Filter e c # primaryNodes c"
  "primaryNodes (SubqueryAlias nm cols vis c) = SubqueryAlias nm cols vis c # primaryNodes c"
  "primaryNodes (TableAlias nm c) = TableAlias nm c # primaryNodes c"
  "primaryNodes (QueryProcess c) = QueryProcess c # primaryNodes c"
  "primaryNodes (StartTransaction c) = StartTransaction c # primaryNodes c"
  "primaryNodes (TransactionCommittingNode c) = TransactionCommittingNode c # primaryNodes c"
  "primaryNodes (TriggerBeginEndBlock cs) = TriggerBeginEndBlock cs # concat (map primaryNodes cs)"
  "primaryNodes (JoinNode t k e l r)
     = JoinNode t k e l r # (if t = JoinTypeRight then primaryNodes r else primaryNodes l)"
  "primaryNodes (IndexedJoin t k e l r) = IndexedJoin t k e l r # primaryNodes l"
  "primaryNodes (CachedResults c) = CachedResults c # primaryNodes c"
  "primaryNodes (StripRowNode c k) = StripRowNode c k # primaryNodes c"
  by (subst primaryNodes.simps, simp add: primaryChild_def map_enumerate_const)+

lemma removePrimaryCache_clean: "m \<in> set (primaryNodes (removePrimaryCache x)) \<Longrightarrow> \<not> isCachedResults m"
proof (induction x arbitrary: m rule: subnodes.induct)
  case (1 x)
  show ?case
    using "1.prems" "1.IH" by (cases x) (auto split: if_splits)
qed

lemma removePrimaryCache_same: "\<not> hasPrimaryCache x \<Longrightarrow> removePrimaryCache x = x"
  using ctxUp_same [where t = "\<lambda>c. \<not> isCachedResults (Node c)" and g = "\<lambda>c. unwrapCache (Node c)"
      and s = "Some cacheSubqueryAlisesInJoins_selector" and c = "\<lparr>Node = x, Parent = None, ChildNum = -1\<rparr>"]
  by (simp add: ctxSame_unwrap ctxUp_unwrap unwrapCache_same)

lemma wrapJoinedAliases_same: "\<not> hasJoinedAlias x \<Longrightarrow> wrapJoinedAliases x = x"
  using ctxUp_same [where t = wrapSame and g = wrapOf
      and s = None and c = "\<lparr>Node = x, Parent = None, ChildNum = -1\<rparr>"]
  by (simp add: ctxSame_wrap ctxUp_wrap wrapSame_wrapOf parentIs_def wrapSame_def)

lemma wrapAlias_not_alias [simp]: "\<not> isSubqueryAlias (wrapAlias x)"
  by (cases x) simp_all










text \<open>
  Claim C5, as stated, fails: at an empty scope the cleanup does not only remove the
  wrapper on the most-primary branch of the top-level join chain. Its selector keeps
  the traversal out of the non-primary child of a join and lets it into every child
  of any other node, and its function unwraps every \<^verbatim>\<open>CachedResults\<close> it is handed.
  So the wrapper below a projection is removed in a plan that has no join at all, and
  both wrappers below a block are removed, not exactly one.
\<close>

theorem cacheSubqueryAlisesInJoins_cleanup_counterexample:
  "\<not> (\<exists>m\<in>set (subnodes (Project [] (CachedResults (ResolvedTable ''t'')))). isJoin m)
   \<and> cacheSubqueryAlisesInJoins (Project [] (CachedResults (ResolvedTable ''t''))) None
       = Inr (Project [] (ResolvedTable ''t''), NewTree)
   \<and> cacheSubqueryAlisesInJoins
         (TriggerBeginEndBlock [CachedResults (ResolvedTable ''t''), CachedResults (ResolvedTable ''u'')]) None
       = Inr (TriggerBeginEndBlock [ResolvedTable ''t'', ResolvedTable ''u''], NewTree)"
proof -
  have nj: "\<not> (\<exists>m\<in>set (subnodes (Project [] (CachedResults (ResolvedTable ''t'')))). isJoin m)"
    by (simp add: isJoin_def)
  have e: "IsEmpty None"
    by (simp add: IsEmpty_def)
  have p: "cacheSubqueryAlisesInJoins (Project [] (CachedResults (ResolvedTable ''t''))) None
       = Inr (Project [] (ResolvedTable ''t''), NewTree)"
    by (simp add: cacheSubqueryAlisesInJoins_eq e hasPrimaryCache_def)
  have b: "cacheSubqueryAlisesInJoins
         (TriggerBeginEndBlock [CachedResults (ResolvedTable ''t''), CachedResults (ResolvedTable ''u'')]) None
       = Inr (TriggerBeginEndBlock [ResolvedTable ''t'', ResolvedTable ''u''], NewTree)"
    by (simp add: cacheSubqueryAlisesInJoins_eq e hasPrimaryCache_def)
  show ?thesis
    using nj p b by simp
qed

text \<open>
  Claim C5, amended. When the scope is not empty the cleanup does not run: the result
  is that of the first pass alone, which only adds wrappers (a wrapper of the input
  stays where it is), and a tree with no derived table directly under a join is
  returned as it is with \<^verbatim>\<open>SameTree\<close>. When the scope is empty the cleanup runs on the
  result of the first pass and removes every caching wrapper that is reached from the
  root without entering the non-primary child of a join: below a join it descends into
  child 0 (child 1 of a right join) and leaves the other child as it is, wrapper
  included; below a node that is no join it descends into every child; a wrapper it
  meets is removed, also one below another wrapper. No wrapper is left among the
  nodes so reached, and a tree without a wrapper there is unchanged.
\<close>

theorem cacheSubqueryAlisesInJoins_cleanup:
  "(\<not> IsEmpty scope \<longrightarrow>
      cacheSubqueryAlisesInJoins n scope = Inr (wrapJoinedAliases n, \<not> hasJoinedAlias n))
   \<and> (\<not> IsEmpty scope \<and> \<not> hasJoinedAlias n \<longrightarrow> cacheSubqueryAlisesInJoins n scope = Inr (n, SameTree))
   \<and> (IsEmpty scope \<longrightarrow>
      cacheSubqueryAlisesInJoins n scope
        = Inr (removePrimaryCache (wrapJoinedAliases n),
               \<not> hasJoinedAlias n \<and> \<not> hasPrimaryCache (wrapJoinedAliases n)))
   \<and> wrapJoinedAliases (CachedResults c) = CachedResults (wrapJoinedAliases c)
   \<and> removePrimaryCache (CachedResults c) = removePrimaryCache c
   \<and> removePrimaryCache (JoinNode t k e l r)
        = (if t = JoinTypeRight then JoinNode t k e l (removePrimaryCache r)
           else JoinNode t k e (removePrimaryCache l) r)
   \<and> removePrimaryCache (IndexedJoin t k e l r) = IndexedJoin t k e (removePrimaryCache l) r
   \<and> (\<forall>m\<in>set (primaryNodes (removePrimaryCache x)). \<not> isCachedResults m)
   \<and> (\<not> hasPrimaryCache x \<longrightarrow> removePrimaryCache x = x)
   \<and> (\<not> isJoin x \<and> \<not> isCachedResults x \<longrightarrow> removePrimaryCache x = mapChildren removePrimaryCache x)
   \<and> (\<not> isJoin x \<longrightarrow>
        set (primaryNodes x) = insert x (\<Union>ch\<in>set (Children x). set (primaryNodes ch)))
   \<and> (hasPrimaryCache x \<longleftrightarrow> (\<exists>m\<in>set (primaryNodes x). isCachedResults m))"
proof -
  have a: "\<forall>m\<in>set (primaryNodes (removePrimaryCache x)). \<not> isCachedResults m"
    using removePrimaryCache_clean by blast
  have b: "\<not> hasJoinedAlias n \<longrightarrow> wrapJoinedAliases n = n"
    by (simp add: wrapJoinedAliases_same)
  have c: "\<not> hasPrimaryCache x \<longrightarrow> removePrimaryCache x = x"
    by (simp add: removePrimaryCache_same)
  have rule: "(\<not> IsEmpty scope \<longrightarrow>
      cacheSubqueryAlisesInJoins n scope = Inr (wrapJoinedAliases n, \<not> hasJoinedAlias n))
   \<and> (\<not> IsEmpty scope \<and> \<not> hasJoinedAlias n \<longrightarrow> cacheSubqueryAlisesInJoins n scope = Inr (n, SameTree))
   \<and> (IsEmpty scope \<longrightarrow>
      cacheSubqueryAlisesInJoins n scope
        = Inr (removePrimaryCache (wrapJoinedAliases n),
               \<not> hasJoinedAlias n \<and> \<not> hasPrimaryCache (wrapJoinedAliases n)))"
    using b by (simp add: cacheSubqueryAlisesInJoins_eq)
  have ctor: "wrapJoinedAliases (CachedResults c) = CachedResults (wrapJoinedAliases c)
   \<and> removePrimaryCache (CachedResults c) = removePrimaryCache c
   \<and> removePrimaryCache (JoinNode t k e l r)
        = (if t = JoinTypeRight then JoinNode t k e l (removePrimaryCache r)
           else JoinNode t k e (removePrimaryCache l) r)
   \<and> removePrimaryCache (IndexedJoin t k e l r) = IndexedJoin t k e (removePrimaryCache l) r"
    by simp
  have d: "\<not> isJoin x \<and> \<not> isCachedResults x \<longrightarrow> removePrimaryCache x = mapChildren removePrimaryCache x"
    by (cases x) (simp_all add: isJoin_def)
  have f: "\<not> isJoin x \<longrightarrow>
        set (primaryNodes x) = insert x (\<Union>ch\<in>set (Children x). set (primaryNodes ch))"
    by (cases x) (simp_all add: isJoin_def)
  have g: "hasPrimaryCache x \<longleftrightarrow> (\<exists>m\<in>set (primaryNodes x). isCachedResults m)"
    by (simp add: hasPrimaryCache_def)
  from rule ctor a c d f g show ?thesis
    by blast
qed

theorem cacheSubqueryAlisesInJoins_cleanup_witness:
  "cacheSubqueryAlisesInJoins
      (JoinNode JoinTypeInner 0 (Literal ''on'')
         (CachedResults (SubqueryAlias ''a'' [] False (ResolvedTable ''t'')))
         (CachedResults (SubqueryAlias ''b'' [] False (ResolvedTable ''u'')))) None
     = Inr (JoinNode JoinTypeInner 0 (Literal ''on'')
              (SubqueryAlias ''a'' [] False (ResolvedTable ''t''))
              (CachedResults (SubqueryAlias ''b'' [] False (ResolvedTable ''u''))), NewTree)
   \<and> cacheSubqueryAlisesInJoins
      (JoinNode JoinTypeInner 0 (Literal ''on'')
         (CachedResults (SubqueryAlias ''a'' [] False (ResolvedTable ''t'')))
         (CachedResults (SubqueryAlias ''b'' [] False (ResolvedTable ''u''))))
      (Some \<lparr>nodes = [ResolvedTable ''o''], recursionDepth = 1\<rparr>)
     = Inr (JoinNode JoinTypeInner 0 (Literal ''on'')
              (CachedResults (SubqueryAlias ''a'' [] False (ResolvedTable ''t'')))
              (CachedResults (SubqueryAlias ''b'' [] False (ResolvedTable ''u''))), SameTree)
   \<and> cacheSubqueryAlisesInJoins
      (JoinNode JoinTypeRight 0 (Literal ''on'')
         (CachedResults (ResolvedTable ''t'')) (CachedResults (ResolvedTable ''u''))) None
     = Inr (JoinNode JoinTypeRight 0 (Literal ''on'')
              (CachedResults (ResolvedTable ''t'')) (ResolvedTable ''u''), NewTree)"
proof -
  let ?a = "CachedResults (SubqueryAlias ''a'' [] False (ResolvedTable ''t''))"
  let ?b = "CachedResults (SubqueryAlias ''b'' [] False (ResolvedTable ''u''))"
  let ?n = "JoinNode JoinTypeInner 0 (Literal ''on'') ?a ?b"
  let ?r = "JoinNode JoinTypeRight 0 (Literal ''on'')
         (CachedResults (ResolvedTable ''t'')) (CachedResults (ResolvedTable ''u''))"
  have nj: "\<not> hasJoinedAlias ?n" "\<not> hasJoinedAlias ?r"
    by (simp_all add: hasJoinedAlias_def isJoin_def)
  have pc: "hasPrimaryCache ?n" "hasPrimaryCache ?r"
    by (simp_all add: hasPrimaryCache_def)
  have ne: "\<not> IsEmpty (Some \<lparr>nodes = [ResolvedTable ''o''], recursionDepth = 1\<rparr>)" "IsEmpty None"
    by (simp_all add: IsEmpty_def)
  show ?thesis
    using nj pc ne
      cacheSubqueryAlisesInJoins_cleanup [where n = ?n and scope = None and c = "ResolvedTable ''t''"
        and t = JoinTypeInner and k = 0 and e = "Literal ''on''" and l = ?a and r = ?b and x = ?n]
      cacheSubqueryAlisesInJoins_cleanup [where n = ?n
        and scope = "Some \<lparr>nodes = [ResolvedTable ''o''], recursionDepth = 1\<rparr>" and c = "ResolvedTable ''t''"
        and t = JoinTypeInner and k = 0 and e = "Literal ''on''" and l = ?a and r = ?b and x = ?n]
      cacheSubqueryAlisesInJoins_cleanup [where n = ?r and scope = None and c = "ResolvedTable ''t''"
        and t = JoinTypeInner and k = 0 and e = "Literal ''on''" and l = ?a and r = ?b and x = ?n]
    by simp
qed



subsection \<open>Resolution of subqueries\<close>

lemma analyzeSubqueryExpression_NewTree:
  "analyzeSubqueryExpression a nsel n sq scope sel finalize = Inr (e', same) \<Longrightarrow> same = NewTree"
  by (auto simp: analyzeSubqueryExpression_def Let_def split: prod.splits option.splits if_splits)

lemma rewriteEach_flag:
  "rewriteEach g i xs = Inr (ys, s) \<Longrightarrow> (j, x) \<in> set (enumerate i xs)
     \<Longrightarrow> \<exists>r fl. g j x = Inr (r, fl) \<and> (s \<longrightarrow> fl)"
proof (induction xs arbitrary: i ys s)
  case Nil
  then show ?case by simp
next
  case (Cons y xs)
  from Cons.prems(1) obtain y' fy ys' s' where
    hd: "g i y = Inr (y', fy)" and tl: "rewriteEach g (Suc i) xs = Inr (ys', s')" and s: "s = (fy \<and> s')"
    by (auto split: sum.splits prod.splits)
  show ?case
  proof (cases "(j, x) = (i, y)")
    case True
    then show ?thesis using hd s by auto
  next
    case False
    then have "(j, x) \<in> set (enumerate (Suc i) xs)" using Cons.prems(2) by auto
    from Cons.IH [OF tl this] show ?thesis using s by auto
  qed
qed

lemma isSubquery_expr_WithChildren:
  "expr_WithChildren e cs = Inr e' \<Longrightarrow> isSubquery e' = isSubquery e"
  by (cases e) (auto split: if_splits)

lemma subquery_no_children: "isSubquery e \<Longrightarrow> expr_Children e = []"
  by (cases e) simp_all

lemma transform_Expr_NewTree:
  assumes F: "\<And>e r fl. isSubquery e \<Longrightarrow> F e = Inr (r, fl) \<Longrightarrow> fl = NewTree"
  shows "transform_Expr e F = Inr (e', same) \<Longrightarrow> \<exists>x\<in>set (subexprs e). isSubquery x \<Longrightarrow> same = NewTree"
proof (induction e arbitrary: e' same rule: subexprs.induct)
  case (1 e)
  show ?case
  proof (cases "expr_Children e = []")
    case True
    then have "subexprs e = [e]" by (subst subexprs.simps) simp
    then have "isSubquery e" using "1.prems"(2) by simp
    moreover have "F e = Inr (e', same)"
      using "1.prems"(1) True by (subst (asm) transform_Expr.simps) simp
    ultimately show ?thesis using F by blast
  next
    case False
    then have ns: "\<not> isSubquery e" using subquery_no_children by blast
    from "1.prems"(2) ns obtain c x where c: "c \<in> set (expr_Children e)" and x: "x \<in> set (subexprs c)" "isSubquery x"
      by (subst (asm) subexprs.simps) auto
    from "1.prems"(1) False obtain cs sameC where
      re: "rewriteEach (\<lambda>i c. transform_Expr c F) 0 (expr_Children e) = Inr (cs, sameC)"
      and imp: "\<not> sameC \<Longrightarrow> same = NewTree"
      by (subst (asm) transform_Expr.simps) (auto split: sum.splits prod.splits if_splits)
    from in_set_enumerate_ex [OF c, of 0] obtain j where j: "(j, c) \<in> set (enumerate 0 (expr_Children e))" ..
    from rewriteEach_flag [OF re j] obtain r fl where
      r: "transform_Expr c F = Inr (r, fl)" and fl: "sameC \<longrightarrow> fl" by blast
    have "fl = NewTree" using "1.IH" [OF c r] x by blast
    then show ?thesis using fl imp by blast
  qed
qed

lemma nodeWithCtxHelper_leaf:
  "Children (Node c) = [] \<Longrightarrow> nodeWithCtxHelper c s f = f c"
  by (subst nodeWithCtxHelper.simps) simp

lemma nodeWithCtxHelper_inner:
  "Children (Node c) \<noteq> [] \<Longrightarrow>
   nodeWithCtxHelper c s f =
    (case rewriteEach
                 (\<lambda>i child.
                    if (case s of None \<Rightarrow> True
                        | Some sel \<Rightarrow> sel \<lparr>Node = child, Parent = Some (Node c), ChildNum = int i\<rparr>)
                    then nodeWithCtxHelper \<lparr>Node = child, Parent = Some (Node c), ChildNum = int i\<rparr> s f
                    else Inr (child, SameTree))
                 0 (Children (Node c)) of
            Inl err \<Rightarrow> Inl err
          | Inr (newChildren, sameC) \<Rightarrow>
              (case (if sameC then Inr (Node c) else WithChildren (Node c) newChildren) of
                 Inl err \<Rightarrow> Inl err
               | Inr node \<Rightarrow>
                   (case f (c\<lparr>Node := node\<rparr>) of
                      Inl err \<Rightarrow> Inl err
                    | Inr (node', sameN) \<Rightarrow> Inr (node', sameC \<and> sameN))))"
  by (subst nodeWithCtxHelper.simps) simp

lemma transform_Expr_leaf:
  "expr_Children e = [] \<Longrightarrow> transform_Expr e f = f e"
  by (subst transform_Expr.simps) simp

lemma Expressions_WithChildren: "WithChildren n cs = Inr n' \<Longrightarrow> Expressions n' = Expressions n"
  by (cases n; cases cs; cases "tl cs"; cases "tl (tl cs)") (auto split: if_splits)

lemma holdsSubquery_Expressioner: "holdsSubquery m \<Longrightarrow> isExpressioner m \<and> \<not> isSubqueryAlias m"
  by (cases m) (auto simp: holdsSubquery_def)

lemma subqueries_ctxFunc_NewTree:
  assumes h: "holdsSubquery (Node c)"
      and r: "subqueries_ctxFunc a sl nsel scope sel fin c = Inr (n', same)"
  shows "same = NewTree"
proof -
  let ?F = "\<lambda>e. if isSubquery e
                 then analyzeSubqueryExpression a nsel (Node c) e scope sel fin
                 else Inr (e, SameTree)"
  from h obtain e x where e: "e \<in> set (Expressions (Node c))" and x: "x \<in> set (subexprs e)" "isSubquery x"
    by (auto simp: holdsSubquery_def)
  have ex: "isExpressioner (Node c)" "\<not> isSubqueryAlias (Node c)"
    using holdsSubquery_Expressioner [OF h] by simp_all
  from r ex obtain es s where
    re: "rewriteEach (\<lambda>i expr. transform_Expr expr ?F) 0 (Expressions (Node c)) = Inr (es, s)"
    and imp: "\<not> s \<Longrightarrow> same = NewTree"
    by (auto simp: subqueries_ctxFunc_def split: sum.splits prod.splits if_splits)
  from in_set_enumerate_ex [OF e, of 0] obtain j where j: "(j, e) \<in> set (enumerate 0 (Expressions (Node c)))" ..
  from rewriteEach_flag [OF re j] obtain r' fl where
    t: "transform_Expr e ?F = Inr (r', fl)" and fl: "s \<longrightarrow> fl" by blast
  have "fl = NewTree"
  proof (rule transform_Expr_NewTree [where F = ?F, OF _ t])
    show "\<exists>x\<in>set (subexprs e). isSubquery x" using x by blast
  next
    fix e0 r0 fl0 assume "isSubquery e0" "?F e0 = Inr (r0, fl0)"
    then show "fl0 = NewTree" using analyzeSubqueryExpression_NewTree by simp
  qed
  then show ?thesis using fl imp by blast
qed

lemma visibleNodes_unfold:
  "m \<in> set (visibleNodes n) \<longleftrightarrow>
     m = n \<or> (\<not> isSubqueryAlias n \<and> (\<exists>c\<in>set (Children n). m \<in> set (visibleNodes c)))"
  by (subst visibleNodes.simps) auto

lemma subqueries_helper_NewTree:
  "nodeWithCtxHelper c (Some subqueries_selectorFunc) (subqueries_ctxFunc a sl nsel scope sel fin) = Inr (n', same)
    \<Longrightarrow> m \<in> set (visibleNodes (Node c)) \<Longrightarrow> holdsSubquery m \<Longrightarrow> same = NewTree"
proof (induction "size (Node c)" arbitrary: c n' same rule: less_induct)
  case less
  let ?f = "subqueries_ctxFunc a sl nsel scope sel fin"
  let ?s = "Some subqueries_selectorFunc"
  show ?case
  proof (cases "Children (Node c) = []")
    case True
    then have "m = Node c" using less.prems(2) by (subst (asm) visibleNodes_unfold) simp
    moreover have "?f c = Inr (n', same)" using less.prems(1) True by (simp add: nodeWithCtxHelper_leaf)
    ultimately show ?thesis using subqueries_ctxFunc_NewTree less.prems(3) by blast
  next
    case False
    from less.prems(1) False obtain cs sameC node sameN where
      re: "rewriteEach
                 (\<lambda>i child.
                    if (case ?s of None \<Rightarrow> True
                        | Some sel \<Rightarrow> sel \<lparr>Node = child, Parent = Some (Node c), ChildNum = int i\<rparr>)
                    then nodeWithCtxHelper \<lparr>Node = child, Parent = Some (Node c), ChildNum = int i\<rparr> ?s ?f
                    else Inr (child, SameTree))
                 0 (Children (Node c)) = Inr (cs, sameC)"
      and nd: "(if sameC then Inr (Node c) else WithChildren (Node c) cs) = Inr node"
      and fr: "?f (c\<lparr>Node := node\<rparr>) = Inr (n', sameN)"
      and sm: "same = (sameC \<and> sameN)"
      by (simp add: nodeWithCtxHelper_inner split: sum.splits prod.splits)
    have ex: "Expressions node = Expressions (Node c)"
      using nd Expressions_WithChildren by (auto split: if_splits)
    from less.prems(2) consider (self) "m = Node c"
      | (below) ch where "\<not> isSubqueryAlias (Node c)" "ch \<in> set (Children (Node c))" "m \<in> set (visibleNodes ch)"
      by (subst (asm) visibleNodes_unfold) auto
    then show ?thesis
    proof cases
      case self
      then have "holdsSubquery (Node (c\<lparr>Node := node\<rparr>))"
        using less.prems(3) ex by (simp add: holdsSubquery_def)
      from subqueries_ctxFunc_NewTree [OF this fr] show ?thesis using sm by simp
    next
      case below
      from in_set_enumerate_ex [OF below(2), of 0] obtain j
        where j: "(j, ch) \<in> set (enumerate 0 (Children (Node c)))" ..
      from rewriteEach_flag [OF re j] below(1) obtain r fl where
        rc: "nodeWithCtxHelper \<lparr>Node = ch, Parent = Some (Node c), ChildNum = int j\<rparr> ?s ?f = Inr (r, fl)"
        and fl: "sameC \<longrightarrow> fl"
        by (auto simp: subqueries_selectorFunc_def parentIs_def)
      have "size (Node \<lparr>Node = ch, Parent = Some (Node c), ChildNum = int j\<rparr>) < size (Node c)"
        using below(2) by (simp add: size_Children)
      from less.hyps [OF this rc] below(3) less.prems(3) have "fl = NewTree" by simp
      then show ?thesis using fl sm by blast
    qed
  qed
qed

lemma Children_mapChildren: "Children (mapChildren h n) = map h (Children n)"
  by (cases n) simp_all

lemma isSubqueryAlias_mapChildren [simp]: "isSubqueryAlias (mapChildren h n) = isSubqueryAlias n"
  by (cases n) simp_all

lemma Expressions_mapChildren [simp]: "Expressions (mapChildren h n) = Expressions n"
  by (cases n) simp_all

lemma writeVisibility_ctor [simp]:
  "writeVisibility (ResolvedTable tb) = ResolvedTable tb"
  "writeVisibility (UnresolvedTable tb) = UnresolvedTable tb"
  "writeVisibility (ShowVariables fl) = ShowVariables fl"
  "writeVisibility (Project es c) = Project es (writeVisibility c)"
  "writeVisibility (Filter e c) = Filter e (writeVisibility c)"
  "writeVisibility (SubqueryAlias nm cols vis c) = SubqueryAlias nm cols True c"
  "writeVisibility (TableAlias nm c) = TableAlias nm (writeVisibility c)"
  "writeVisibility (QueryProcess c) = QueryProcess (writeVisibility c)"
  "writeVisibility (StartTransaction c) = StartTransaction (writeVisibility c)"
  "writeVisibility (TransactionCommittingNode c) = TransactionCommittingNode (writeVisibility c)"
  "writeVisibility (TriggerBeginEndBlock cs) = TriggerBeginEndBlock (map writeVisibility cs)"
  "writeVisibility (JoinNode t k e l r) = JoinNode t k e (writeVisibility l) (writeVisibility r)"
  "writeVisibility (IndexedJoin t k e l r) = IndexedJoin t k e (writeVisibility l) (writeVisibility r)"
  "writeVisibility (CachedResults c) = CachedResults (writeVisibility c)"
  "writeVisibility (StripRowNode c k) = StripRowNode (writeVisibility c) k"
  by (subst writeVisibility.simps, simp)+

lemma pointerWrites_None [simp]: "pointerWrites None n = n"
  by (simp add: pointerWrites_def)

lemma visibleNodes_writeVisibility:
  "m \<in> set (visibleNodes n) \<Longrightarrow> holdsSubquery m
    \<Longrightarrow> \<exists>m'\<in>set (visibleNodes (writeVisibility n)). holdsSubquery m'"
proof (induction n rule: subnodes.induct)
  case (1 n)
  from "1.prems"(1) consider (self) "m = n"
    | (below) ch where "\<not> isSubqueryAlias n" "ch \<in> set (Children n)" "m \<in> set (visibleNodes ch)"
    by (subst (asm) visibleNodes_unfold) auto
  then show ?case
  proof cases
    case self
    then have ns: "\<not> isSubqueryAlias n"
      using "1.prems"(2) holdsSubquery_Expressioner by blast
    then have w: "writeVisibility n = mapChildren writeVisibility n"
      by (subst writeVisibility.simps) simp
    have "holdsSubquery (mapChildren writeVisibility n)"
      using "1.prems"(2) self by (simp add: holdsSubquery_def)
    moreover have "mapChildren writeVisibility n \<in> set (visibleNodes (mapChildren writeVisibility n))"
      by (subst visibleNodes_unfold) simp
    ultimately show ?thesis
      using w by auto
  next
    case below
    from "1.IH" [OF below(2,3) "1.prems"(2)] obtain m'
      where m': "m' \<in> set (visibleNodes (writeVisibility ch))" "holdsSubquery m'"
      by blast
    have w: "writeVisibility n = mapChildren writeVisibility n"
      using below(1) by (subst writeVisibility.simps) simp
    have "m' \<in> set (visibleNodes (mapChildren writeVisibility n))"
      using below(1,2) m'(1) by (subst visibleNodes_unfold) (auto simp: Children_mapChildren)
    then show ?thesis
      using w m'(2) by auto
  qed
qed

lemma visibleNodes_pointerWrites:
  "\<exists>m\<in>set (visibleNodes n). holdsSubquery m
    \<Longrightarrow> \<exists>m\<in>set (visibleNodes (pointerWrites scope n)). holdsSubquery m"
  using visibleNodes_writeVisibility by (auto simp: pointerWrites_def)

lemma pointerWrites_SubqueryAlias:
  "pointerWrites scope (SubqueryAlias nm cols vis c) = SubqueryAlias nm cols (vis \<or> \<not> IsEmpty scope) c"
  by (auto simp: pointerWrites_def IsEmpty_def InnerToOuter_def split: option.splits)

lemma analyzeSubqueryAlias_written:
  "snd (analyzeSubqueryAlias a sl (SubqueryAlias nm cols (vis \<or> \<not> IsEmpty scope) c) scope sel fin)
     = snd (analyzeSubqueryAlias a sl (SubqueryAlias nm cols vis c) scope sel fin)"
  by (cases "IsEmpty scope")
     (auto simp: analyzeSubqueryAlias_def IsEmpty_def InnerToOuter_def Let_def
       split: option.splits prod.splits)

text \<open>
  On a plan whose root is a subquery-derived table the rule returns what
  \<^verbatim>\<open>analyzeSubqueryAlias\<close> returns for the root: the body is not traversed, it is
  left to the analysis of the derived table, whose identity is passed on.
\<close>

lemma resolveSubqueries_SubqueryAlias:
  "resolveSubqueries a sl nsel (SubqueryAlias nm cols vis c) scope sel
     = snd (analyzeSubqueryAlias a sl (SubqueryAlias nm cols vis c) scope sel False)"
  unfolding resolveSubqueries_def transform_NodeWithCtx_def pointerWrites_SubqueryAlias
  by (subst nodeWithCtxHelper_inner)
     (simp_all add: subqueries_selectorFunc_def parentIs_def subqueries_ctxFunc_def
        analyzeSubqueryAlias_written split: sum.splits prod.splits)

text \<open>
  A derived table that is not the root and is returned as \<^verbatim>\<open>SameTree\<close> carries the
  flag in the tree that the rule returns.
\<close>

lemma resolveSubqueries_writes_flag:
  "resolveSubqueries idAnalyzer (\<lambda>_. 0) id
      (Project [] (SubqueryAlias ''x'' [] False (ResolvedTable ''t'')))
      (Some \<lparr>nodes = [ResolvedTable ''o''], recursionDepth = 0\<rparr>) (\<lambda>_. True)
     = Inr (Project [] (SubqueryAlias ''x'' [] True (ResolvedTable ''t'')), SameTree)"
  by (simp add: resolveSubqueries_def pointerWrites_def transform_NodeWithCtx_def nodeWithCtxHelper_inner
      subqueries_selectorFunc_def parentIs_def subqueries_ctxFunc_def analyzeSubqueryAlias_def
      idAnalyzer_def InnerToOuter_def Let_def)

text \<open>
  Claim C9, as stated, fails in its second part: the traversal does not descend below
  a subquery-derived table, whose body is handed to the analyzer instead. The plan
  below holds a subquery expression inside a derived table; with an analyzer that
  reports the body unchanged, \<^verbatim>\<open>resolveSubqueries\<close> returns the plan with
  \<^verbatim>\<open>SameTree\<close>.
\<close>

theorem resolveSubqueries_SameTree_counterexample:
  "(\<exists>m\<in>set (subnodes (SubqueryAlias ''x'' [] False
                       (Filter (Subquery (ResolvedTable ''t'') False) (ResolvedTable ''u'')))).
      holdsSubquery m)
   \<and> resolveSubqueries idAnalyzer (\<lambda>_. 0) id
        (SubqueryAlias ''x'' [] False (Filter (Subquery (ResolvedTable ''t'') False) (ResolvedTable ''u'')))
        None (\<lambda>_. True)
     = Inr (SubqueryAlias ''x'' [] False (Filter (Subquery (ResolvedTable ''t'') False) (ResolvedTable ''u'')),
            SameTree)"
proof -
  have h: "holdsSubquery (Filter (Subquery (ResolvedTable ''t'') False) (ResolvedTable ''u''))"
    by (simp add: holdsSubquery_def)
  have r: "resolveSubqueries idAnalyzer (\<lambda>_. 0) id
        (SubqueryAlias ''x'' [] False (Filter (Subquery (ResolvedTable ''t'') False) (ResolvedTable ''u'')))
        None (\<lambda>_. True)
     = Inr (SubqueryAlias ''x'' [] False (Filter (Subquery (ResolvedTable ''t'') False) (ResolvedTable ''u'')),
            SameTree)"
    by (simp add: resolveSubqueries_def transform_NodeWithCtx_def nodeWithCtxHelper_inner
        subqueries_selectorFunc_def parentIs_def subqueries_ctxFunc_def analyzeSubqueryAlias_def
        idAnalyzer_def InnerToOuter_def Let_def)
  show ?thesis using h r by simp
qed

text \<open>
  Claim C9, amended. Whenever \<^verbatim>\<open>analyzeSubqueryExpression\<close> returns without error,
  deferred error included, it reports \<^verbatim>\<open>NewTree\<close>. So whenever \<^verbatim>\<open>resolveSubqueries\<close>
  (or \<^verbatim>\<open>finalizeSubqueries\<close>) returns without error on a plan that holds a subquery
  expression in a node not below a subquery-derived table, it reports \<^verbatim>\<open>NewTree\<close>,
  even when the result is the plan it was given.
\<close>

theorem resolveSubqueries_NewTree:
  "(analyzeSubqueryExpression a nsel p sq scope sel finalize = Inr (e', idt) \<longrightarrow> idt = NewTree)
   \<and> (resolveSubqueries a schemaLength nsel n scope sel = Inr (n', same)
        \<and> (\<exists>m\<in>set (visibleNodes n). holdsSubquery m) \<longrightarrow> same = NewTree)
   \<and> (finalizeSubqueries a schemaLength nsel n scope sel = Inr (n', same)
        \<and> (\<exists>m\<in>set (visibleNodes n). holdsSubquery m) \<longrightarrow> same = NewTree)
   \<and> (m \<in> set (visibleNodes n) \<longleftrightarrow>
        m = n \<or> (\<not> isSubqueryAlias n \<and> (\<exists>c\<in>set (Children n). m \<in> set (visibleNodes c))))"
proof -
  have a: "analyzeSubqueryExpression a nsel p sq scope sel finalize = Inr (e', idt) \<longrightarrow> idt = NewTree"
    using analyzeSubqueryExpression_NewTree by blast
  have b: "resolveSubqueries a schemaLength nsel n scope sel = Inr (n', same)
        \<and> (\<exists>m\<in>set (visibleNodes n). holdsSubquery m) \<longrightarrow> same = NewTree"
    unfolding resolveSubqueries_def transform_NodeWithCtx_def
    using subqueries_helper_NewTree [where c = "\<lparr>Node = pointerWrites scope n, Parent = None, ChildNum = -1\<rparr>"
        and a = a and sl = schemaLength and nsel = nsel and scope = scope and sel = sel and fin = False
        and n' = n' and same = same]
      visibleNodes_pointerWrites [of n scope]
    by auto
  have c: "finalizeSubqueries a schemaLength nsel n scope sel = Inr (n', same)
        \<and> (\<exists>m\<in>set (visibleNodes n). holdsSubquery m) \<longrightarrow> same = NewTree"
    unfolding finalizeSubqueries_def transform_NodeWithCtx_def
    using subqueries_helper_NewTree [where c = "\<lparr>Node = pointerWrites scope n, Parent = None, ChildNum = -1\<rparr>"
        and a = a and sl = schemaLength and nsel = nsel and scope = scope and sel = sel and fin = True
        and n' = n' and same = same]
      visibleNodes_pointerWrites [of n scope]
    by auto
  show ?thesis
    using a b c visibleNodes_unfold [of m n] by simp
qed

theorem resolveSubqueries_NewTree_witness:
  "resolveSubqueries idAnalyzer (\<lambda>_. 0) id
      (Filter (Subquery (ResolvedTable ''t'') False) (ResolvedTable ''u'')) None (\<lambda>_. True)
     = Inr (Filter (Subquery (ResolvedTable ''t'') False) (ResolvedTable ''u''), NewTree)"
proof -
  let ?n = "Filter (Subquery (ResolvedTable ''t'') False) (ResolvedTable ''u'')"
  have r: "\<exists>same. resolveSubqueries idAnalyzer (\<lambda>_. 0) id ?n None (\<lambda>_. True) = Inr (?n, same)"
    by (simp add: resolveSubqueries_def transform_NodeWithCtx_def nodeWithCtxHelper_inner
        nodeWithCtxHelper_leaf transform_Expr_leaf
        subqueries_selectorFunc_def parentIs_def subqueries_ctxFunc_def analyzeSubqueryExpression_def
        idAnalyzer_def Let_def)
       (rule exI [of _ False], simp)
  then obtain same where s: "resolveSubqueries idAnalyzer (\<lambda>_. 0) id ?n None (\<lambda>_. True) = Inr (?n, same)" ..
  have v: "\<exists>m\<in>set (visibleNodes ?n). holdsSubquery m"
    by (subst visibleNodes.simps) (simp add: holdsSubquery_def)
  from resolveSubqueries_NewTree [where a = idAnalyzer and schemaLength = "\<lambda>_. 0" and nsel = id and n = ?n
      and scope = None and sel = "\<lambda>_. True" and n' = ?n and same = same, THEN conjunct2, THEN conjunct1] s v
  have "same = NewTree" by blast
  then show ?thesis using s by simp
qed

end
